theory Spec2Isabelle
  imports Complex_Main "HOL-Library.Char_ord" "HOL-Library.List_Lexorder"
begin

section \<open>The session store (lib/db)\<close>

text \<open>
  One row of the SQLite table \<open>sessions\<close>. Timestamps are ISO-8601 texts; SQLite compares
  \<open>TEXT\<close> values byte by byte, which is the lexicographic order on \<open>string\<close> used here.
  \<open>completedAt\<close> and \<open>jiraTicket\<close> are nullable columns, \<open>isAutoCompleted\<close> is an
  integer column holding 0 or 1. The column \<open>id\<close> is the field \<open>id_col\<close>.
\<close>

record session =
  id_col :: string
  projectId :: string
  description :: string
  startedAt :: string
  completedAt :: "string option"
  isAutoCompleted :: int
  jiraTicket :: "string option"

text \<open>The table: its rows in insertion order.\<close>

type_synonym sessions = "session list"

datatype error = SqliteConstraint | ZodError | RangeError

text \<open>
  \<open>INSERT INTO sessions (...) VALUES (?, ?, ?, ?, 0, ?)\<close>: \<open>id\<close> is the primary key, so an id
  that is already present makes the statement throw and leaves the table as it was. The
  column \<open>completedAt\<close> is not listed and is therefore \<open>NULL\<close>.
\<close>

definition logSessionStart ::
  "string \<Rightarrow> string \<Rightarrow> string \<Rightarrow> string \<Rightarrow> string option \<Rightarrow> sessions \<Rightarrow> error + sessions" where
  "logSessionStart i p d t j db =
     (if i \<in> set (map id_col db) then Inl SqliteConstraint
      else Inr (db @ [\<lparr>id_col = i, projectId = p, description = d, startedAt = t,
                       completedAt = None, isAutoCompleted = 0, jiraTicket = j\<rparr>]))"

text \<open>
  \<open>ORDER BY startedAt DESC LIMIT 1\<close> over a list of rows: one scan that keeps the row with
  the greatest \<open>startedAt\<close> seen so far. Among rows with equal \<open>startedAt\<close> SQLite may return
  any; the scan keeps the earliest inserted one.
\<close>

fun topByStartedAt :: "session \<Rightarrow> session list \<Rightarrow> session" where
  "topByStartedAt best [] = best"
| "topByStartedAt best (s # rows) =
     topByStartedAt (if startedAt best < startedAt s then s else best) rows"

definition orderByStartedAtDescLimit1 :: "session list \<Rightarrow> session option" where
  "orderByStartedAtDescLimit1 rows =
     (case rows of [] \<Rightarrow> None | s # rest \<Rightarrow> Some (topByStartedAt s rest))"

definition isOpen :: "session \<Rightarrow> bool" where
  "isOpen s = (completedAt s = None)"

definition closeRow :: "string \<Rightarrow> bool \<Rightarrow> session \<Rightarrow> session" where
  "closeRow c a s = s\<lparr>completedAt := Some c, isAutoCompleted := (if a then 1 else 0)\<rparr>"

text \<open>
  \<open>UPDATE sessions SET completedAt = ?, isAutoCompleted = ? WHERE id = (SELECT id FROM sessions
  WHERE completedAt IS NULL ORDER BY startedAt DESC LIMIT 1)\<close>. An empty subquery yields
  \<open>NULL\<close>, which no id equals, so nothing is updated.
\<close>

definition completeLatestSession :: "string \<Rightarrow> bool \<Rightarrow> sessions \<Rightarrow> sessions" where
  "completeLatestSession c a db =
     (case orderByStartedAtDescLimit1 (filter isOpen db) of
        None \<Rightarrow> db
      | Some t \<Rightarrow> map (\<lambda>s. if id_col s = id_col t then closeRow c a s else s) db)"

text \<open>
  \<open>SessionSchema.parse(stmt.get())\<close>: on an empty table \<open>stmt.get()\<close> is \<open>undefined\<close> and
  \<open>parse\<close> throws a \<open>ZodError\<close>; every stored row satisfies the schema.
\<close>

definition getLatestSession :: "sessions \<Rightarrow> error + session" where
  "getLatestSession db =
     (case orderByStartedAtDescLimit1 db of None \<Rightarrow> Inl ZodError | Some s \<Rightarrow> Inr s)"

text \<open>
  \<open>deleteOldSessions(days)\<close> moves the current date back by \<open>days\<close>, renders it with
  \<open>toISOString\<close> (which throws a \<open>RangeError\<close> on an invalid date) and runs
  \<open>DELETE FROM sessions WHERE startedAt < ?\<close>. The date arithmetic of the runtime is the
  parameter \<open>isoDaysAgo\<close>. The function returns nothing; the model returns the new table.
\<close>

definition deleteOldSessions :: "('d \<Rightarrow> string option) \<Rightarrow> 'd \<Rightarrow> sessions \<Rightarrow> error + sessions" where
  "deleteOldSessions isoDaysAgo days db =
     (case isoDaysAgo days of
        None \<Rightarrow> Inl RangeError
      | Some cutoff \<Rightarrow> Inr (filter (\<lambda>s. \<not> startedAt s < cutoff) db))"


text \<open>
  Sequences of the two store operations used by the command surface and the monitor. An
  insert that throws leaves the table unchanged.
\<close>

datatype store_op =
    LogSessionStart string string string string "string option"
  | CompleteLatestSession string bool

fun applyOp :: "store_op \<Rightarrow> sessions \<Rightarrow> sessions" where
  "applyOp (LogSessionStart i p d t j) db =
     (case logSessionStart i p d t j db of Inl e \<Rightarrow> db | Inr db' \<Rightarrow> db')"
| "applyOp (CompleteLatestSession c a) db = completeLatestSession c a db"

fun runOps :: "store_op list \<Rightarrow> sessions \<Rightarrow> sessions" where
  "runOps [] db = db"
| "runOps (x # ops) db = runOps ops (applyOp x db)"

definition openCount :: "sessions \<Rightarrow> nat" where
  "openCount db = length (filter isOpen db)"

text \<open>
  A sequence in which every \<open>LogSessionStart\<close> comes first or after a
  \<open>CompleteLatestSession\<close> with no other \<open>LogSessionStart\<close> in between; \<open>pending\<close> says
  that a start has been issued since the last completion.
\<close>

fun closesBeforeStarts :: "bool \<Rightarrow> store_op list \<Rightarrow> bool" where
  "closesBeforeStarts pending [] = True"
| "closesBeforeStarts pending (LogSessionStart i p d t j # ops) =
     (\<not> pending \<and> closesBeforeStarts True ops)"
| "closesBeforeStarts pending (CompleteLatestSession c a # ops) = closesBeforeStarts False ops"


section \<open>The remote timer client (clockify) and the monitor (index)\<close>

text \<open>
  Calls that leave the process, and the two store writes, in the order they are made.
\<close>

datatype event =
    GetUser
  | GetActiveTimer
  | StopTimer
  | PostTimeEntry string string string
  | GetProjectById string
  | SendNotification
  | GetJiraTicket string
  | StopJiraTimer string int
  | DbLogSessionStart string
  | DbCompleteLatestSession string bool

text \<open>
  The state the monitor works on: the session table, the calls made so far, and the three
  variables of the \<open>monitor\<close> closure.
\<close>

record state =
  sessionsDb :: sessions
  calls :: "event list"
  lastResumeAt :: int
  isLocked :: bool
  lastIdle :: bool

definition RESUME_COOLDOWN_MS :: int where
  "RESUME_COOLDOWN_MS = 10000"

definition IDLE_THRESHOLD_SECONDS :: real where
  "IDLE_THRESHOLD_SECONDS = 300"

definition initialState :: state where
  "initialState = \<lparr>sessionsDb = [], calls = [], lastResumeAt = 0, isLocked = False, lastIdle = False\<rparr>"

datatype jira_reply = JiraThrows | JiraNoTicket | JiraSummary string

text \<open>What the outside world answers during one call of \<open>Clockify.startTimer\<close>.\<close>

record start_env =
  user_ok :: bool
  jira_reply_of :: jira_reply
  started_iso :: string
  session_uuid :: string
  post_ok :: bool
  notify_ok :: bool

text \<open>
  Truthiness of a value that is a text, \<open>null\<close> or \<open>undefined\<close>: only a non-empty text
  passes an \<open>if\<close>.
\<close>

definition truthy :: "string option \<Rightarrow> string option" where
  "truthy v = (case v of None \<Rightarrow> None | Some x \<Rightarrow> if x = [] then None else Some x)"

text \<open>
  \<open>Clockify.startTimer(workspaceId, projectId, description = 'Working on a task...',
  jiraTicket?)\<close>. The whole body sits in one \<open>try\<close>: whatever throws makes the method
  return \<open>null\<close> (\<open>False\<close>) with the effects made so far kept. \<open>getProjectById\<close> catches its
  own errors.
\<close>

definition startTimer ::
  "start_env \<Rightarrow> string \<Rightarrow> string option \<Rightarrow> string option \<Rightarrow> state \<Rightarrow> bool \<times> state" where
  "startTimer env pid descr jira st =
     (let st1 = st\<lparr>calls := calls st @ [GetUser]\<rparr> in
      if \<not> user_ok env then (False, st1)
      else
        let description0 = (case descr of None \<Rightarrow> ''Working on a task...'' | Some d \<Rightarrow> d);
            st2 = (case truthy jira of
                     None \<Rightarrow> st1
                   | Some ticket \<Rightarrow> st1\<lparr>calls := calls st1 @ [GetJiraTicket ticket]\<rparr>)
        in if truthy jira \<noteq> None \<and> jira_reply_of env = JiraThrows then (False, st2)
        else
          let finalDescription =
                (case truthy jira of
                   None \<Rightarrow> description0
                 | Some ticket \<Rightarrow>
                     (case jira_reply_of env of
                        JiraSummary summary \<Rightarrow> ticket @ '' '' @ summary
                      | _ \<Rightarrow> description0));
              startedAt0 = started_iso env;
              sessionId = session_uuid env;
              st3 = st2\<lparr>calls := calls st2 @ [PostTimeEntry pid finalDescription startedAt0]\<rparr>
          in if \<not> post_ok env then (False, st3)
          else
            let st4 = st3\<lparr>calls := calls st3 @ [DbLogSessionStart sessionId]\<rparr> in
            case logSessionStart sessionId pid finalDescription startedAt0 jira (sessionsDb st4) of
              Inl e \<Rightarrow> (False, st4)
            | Inr db' \<Rightarrow>
                let st5 = st4\<lparr>sessionsDb := db', calls := calls st4 @ [GetProjectById pid, SendNotification]\<rparr>
                in (notify_ok env, st5))"

text \<open>
  \<open>new Date(text).getTime()\<close> is the parameter \<open>getTime\<close> of the monitor's functions:
  \<open>None\<close> stands for \<open>NaN\<close>, which compares false with every number.
\<close>

definition timeSpentSeconds :: "(string \<Rightarrow> int option) \<Rightarrow> string \<Rightarrow> string \<Rightarrow> int option" where
  "timeSpentSeconds getTime completedAt0 startedAt0 =
     (case (getTime completedAt0, getTime startedAt0) of
        (Some c, Some s) \<Rightarrow> Some ((c - s + 500) div 1000)
      | _ \<Rightarrow> None)"

text \<open>
  The block \<open>if (latestSession?.jiraTicket) { ... }\<close>: the work log sent to Jira when the
  session has a ticket and lasted at least 60 seconds; \<open>Math.round\<close> of a quotient of
  integers by 1000 is \<open>(n + 500) div 1000\<close>. A failure of \<open>stopJiraTimer\<close> is caught.
\<close>

definition jiraWorklog :: "(string \<Rightarrow> int option) \<Rightarrow> string \<Rightarrow> session \<Rightarrow> event list" where
  "jiraWorklog getTime completedAt0 latestSession =
     (case truthy (jiraTicket latestSession) of
        None \<Rightarrow> []
      | Some ticket \<Rightarrow>
          (case timeSpentSeconds getTime completedAt0 (startedAt latestSession) of
             None \<Rightarrow> []
           | Some secs \<Rightarrow> if secs \<ge> 60 then [StopJiraTimer ticket secs] else []))"

text \<open>What the outside world answers during one call of \<open>stopTimerAndLog\<close>.\<close>

record stop_env =
  stop_active :: bool
  stop_now_iso :: string
  stop_stopped :: bool

text \<open>
  \<open>stopTimerAndLog(reason)\<close>: the result is \<open>Inr\<close> of the returned boolean, or \<open>Inl\<close> of the
  error that \<open>getLatestSession\<close> throws; the state is the one reached at that point.
\<close>

definition stopTimerAndLog ::
  "(string \<Rightarrow> int option) \<Rightarrow> stop_env \<Rightarrow> state \<Rightarrow> (error + bool) \<times> state" where
  "stopTimerAndLog getTime env st =
     (let st1 = st\<lparr>calls := calls st @ [GetActiveTimer]\<rparr> in
      if \<not> stop_active env then (Inr False, st1)
      else
        let completedAt0 = stop_now_iso env in
        case getLatestSession (sessionsDb st1) of
          Inl e \<Rightarrow> (Inl e, st1)
        | Inr latestSession \<Rightarrow>
            let st2 = st1\<lparr>calls := calls st1 @ [StopTimer]\<rparr> in
            if \<not> stop_stopped env then (Inr False, st2)
            else
              let st3 = st2\<lparr>sessionsDb := completeLatestSession completedAt0 True (sessionsDb st2),
                           calls := calls st2 @ [DbCompleteLatestSession completedAt0 True]\<rparr>;
                  st4 = st3\<lparr>calls := calls st3 @ jiraWorklog getTime completedAt0 latestSession\<rparr>
              in (Inr True, st4))"

text \<open>What the outside world answers during one call of \<open>safeRestartTimerIfNeeded\<close>:
  the three readings of \<open>Date.now()\<close>, the reply of \<open>getActiveTimer\<close>, and the answers to
  \<open>startTimer\<close>.\<close>

record restart_env =
  t_enter :: int
  restart_active :: bool
  t_check :: int
  restart_start :: start_env
  t_done :: int

definition eligible :: "(string \<Rightarrow> int option) \<Rightarrow> int \<Rightarrow> session \<Rightarrow> bool" where
  "eligible getTime now latestSession =
     (let twoHoursAgo = now - 2 * 60 * 60 * 1000;
          completedAt0 = (case truthy (completedAt latestSession) of
                            None \<Rightarrow> Some 0
                          | Some text \<Rightarrow> getTime text)
      in isAutoCompleted latestSession \<noteq> 0
         \<and> (case completedAt0 of None \<Rightarrow> False | Some c \<Rightarrow> c > twoHoursAgo)
         \<and> projectId latestSession \<noteq> [])"

text \<open>
  \<open>safeRestartTimerIfNeeded()\<close>. The \<open>sleep(800)\<close> changes nothing in the state, and
  \<open>if (!latestSession) return\<close> never fires, since \<open>getLatestSession\<close> returns a row or
  throws. The result of \<open>startTimer\<close> is not looked at, and \<open>lastResumeAt\<close> is stamped
  after it returns. This is one call run from its first line to its last with nothing else
  in between.
\<close>

definition safeRestartTimerIfNeeded ::
  "(string \<Rightarrow> int option) \<Rightarrow> restart_env \<Rightarrow> state \<Rightarrow> (error + unit) \<times> state" where
  "safeRestartTimerIfNeeded getTime env st =
     (let now = t_enter env in
      if now - lastResumeAt st < RESUME_COOLDOWN_MS then (Inr (), st)
      else
        case getLatestSession (sessionsDb st) of
          Inl e \<Rightarrow> (Inl e, st)
        | Inr latestSession \<Rightarrow>
            let st1 = st\<lparr>calls := calls st @ [GetActiveTimer]\<rparr> in
            if restart_active env then (Inr (), st1)
            else if \<not> eligible getTime (t_check env) latestSession then (Inr (), st1)
            else
              let st2 = snd (startTimer (restart_start env) (projectId latestSession)
                               (Some (description latestSession)) None st1)
              in (Inr (), st2\<lparr>lastResumeAt := t_done env\<rparr>))"

text \<open>
  The same function cut at its awaits. An \<open>async\<close> function runs on its own only up to the
  next \<open>await\<close>, and the two pollers are separate \<open>setInterval\<close> callbacks, so another
  handler can run between two parts. \<open>restartEntry\<close> is the part before \<open>await sleep(800)\<close>
  (true when the call goes on), \<open>restartAfterSleep\<close> the part up to
  \<open>await clockify.getActiveTimer(...)\<close>, and \<open>restartAfterActiveTimer\<close> the rest.
\<close>

definition restartEntry :: "restart_env \<Rightarrow> state \<Rightarrow> bool" where
  "restartEntry env st = (\<not> t_enter env - lastResumeAt st < RESUME_COOLDOWN_MS)"

definition restartAfterSleep :: "state \<Rightarrow> (error + session) \<times> state" where
  "restartAfterSleep st =
     (case getLatestSession (sessionsDb st) of
        Inl e \<Rightarrow> (Inl e, st)
      | Inr latestSession \<Rightarrow> (Inr latestSession, st\<lparr>calls := calls st @ [GetActiveTimer]\<rparr>))"

definition restartAfterActiveTimer ::
  "(string \<Rightarrow> int option) \<Rightarrow> restart_env \<Rightarrow> session \<Rightarrow> state \<Rightarrow> state" where
  "restartAfterActiveTimer getTime env latestSession st =
     (if restart_active env then st
      else if \<not> eligible getTime (t_check env) latestSession then st
      else
        let st2 = snd (startTimer (restart_start env) (projectId latestSession)
                         (Some (description latestSession)) None st)
        in st2\<lparr>lastResumeAt := t_done env\<rparr>)"

text \<open>
  One run of the callback behind \<open>pollInterval\<close>, the lock-state poller (every 3 s on
  macOS). \<open>lock_state\<close> is \<open>None\<close> when \<open>getSessionState\<close> throws. Any error is caught by
  the poller; when \<open>safeRestartTimerIfNeeded\<close> throws, \<open>isLocked = false\<close> is not reached.
\<close>

record lock_env =
  lock_state :: "bool option"
  lock_stop :: stop_env
  lock_restart :: restart_env

definition pollInterval :: "(string \<Rightarrow> int option) \<Rightarrow> lock_env \<Rightarrow> state \<Rightarrow> state" where
  "pollInterval getTime env st =
     (case lock_state env of
        None \<Rightarrow> st
      | Some locked \<Rightarrow>
          if locked \<and> \<not> isLocked st
          then snd (stopTimerAndLog getTime (lock_stop env) (st\<lparr>isLocked := True\<rparr>))
          else if \<not> locked \<and> isLocked st
          then (case safeRestartTimerIfNeeded getTime (lock_restart env) st of
                  (Inl e, st') \<Rightarrow> st'
                | (Inr u, st') \<Rightarrow> st'\<lparr>isLocked := False\<rparr>)
          else st)"

text \<open>
  One run of the callback behind \<open>idleInterval\<close>, the idle poller (every 5 s).
  \<open>idle_time\<close> is \<open>None\<close> when \<open>getIdleTime\<close> throws. Errors are swallowed; a throw
  skips the assignments to \<open>lastIdle\<close> after it.
\<close>

record idle_env =
  idle_time :: "real option"
  idle_stop :: stop_env
  idle_restart :: restart_env

definition idleInterval :: "(string \<Rightarrow> int option) \<Rightarrow> idle_env \<Rightarrow> state \<Rightarrow> state" where
  "idleInterval getTime env st =
     (case idle_time env of
        None \<Rightarrow> st
      | Some idleTime \<Rightarrow>
          if idleTime \<ge> IDLE_THRESHOLD_SECONDS
          then (case stopTimerAndLog getTime (idle_stop env) st of
                  (Inl e, st') \<Rightarrow> st'
                | (Inr stopped, st') \<Rightarrow> if stopped then st'\<lparr>lastIdle := True\<rparr> else st')
          else if lastIdle st
          then (case safeRestartTimerIfNeeded getTime (idle_restart env) st of
                  (Inl e, st') \<Rightarrow> st'
                | (Inr u, st') \<Rightarrow> st'\<lparr>lastIdle := False\<rparr>)
          else st\<lparr>lastIdle := False\<rparr>)"

datatype tick = LockPoll lock_env | IdleTick idle_env

fun runTick :: "(string \<Rightarrow> int option) \<Rightarrow> tick \<Rightarrow> state \<Rightarrow> state" where
  "runTick getTime (LockPoll env) st = pollInterval getTime env st"
| "runTick getTime (IdleTick env) st = idleInterval getTime env st"

fun restartEnvOf :: "tick \<Rightarrow> restart_env" where
  "restartEnvOf (LockPoll env) = lock_restart env"
| "restartEnvOf (IdleTick env) = idle_restart env"

definition timerStarts :: "event list \<Rightarrow> nat" where
  "timerStarts cs = length (filter (\<lambda>e. case e of PostTimeEntry p d t \<Rightarrow> True | _ \<Rightarrow> False) cs)"

definition startTimerCalls :: "event list \<Rightarrow> nat" where
  "startTimerCalls cs = length (filter (\<lambda>e. e = GetUser) cs)"


fun runTicks :: "(string \<Rightarrow> int option) \<Rightarrow> tick list \<Rightarrow> state \<Rightarrow> state" where
  "runTicks getTime [] st = st"
| "runTicks getTime (k # ks) st = runTicks getTime ks (runTick getTime k st)"


section \<open>Sample inputs\<close>

text \<open>
  Concrete tables, clocks and replies on which the theorems below are instantiated. The
  first of January 2025, 10:00:00 UTC is 1735725600000 ms after the epoch.
\<close>

definition sample_getTime :: "string \<Rightarrow> int option" where
  "sample_getTime text =
     (if text = ''2025-01-01T09:00:00.000Z'' then Some 1735722000000
      else if text = ''2025-01-01T10:00:00.000Z'' then Some 1735725600000
      else None)"

definition sample_isoDaysAgo :: "int \<Rightarrow> string option" where
  "sample_isoDaysAgo days = (if days = 5 then Some ''2025-01-05T00:00:00.000Z'' else None)"

definition sample_open :: session where
  "sample_open = \<lparr>id_col = ''s1'', projectId = ''p1'', description = ''write report'',
     startedAt = ''2025-01-01T09:00:00.000Z'', completedAt = None, isAutoCompleted = 0,
     jiraTicket = None\<rparr>"

definition sample_open_later :: session where
  "sample_open_later = \<lparr>id_col = ''s2'', projectId = ''p2'', description = ''review'',
     startedAt = ''2025-01-01T09:30:00.000Z'', completedAt = None, isAutoCompleted = 0,
     jiraTicket = None\<rparr>"

definition sample_closed :: session where
  "sample_closed = \<lparr>id_col = ''s0'', projectId = ''p1'', description = ''mail'',
     startedAt = ''2025-01-01T08:00:00.000Z'', completedAt = Some ''2025-01-01T08:30:00.000Z'',
     isAutoCompleted = 0, jiraTicket = None\<rparr>"

definition sample_auto_closed :: session where
  "sample_auto_closed = \<lparr>id_col = ''s1'', projectId = ''p1'', description = ''write report'',
     startedAt = ''2025-01-01T09:00:00.000Z'', completedAt = Some ''2025-01-01T10:00:00.000Z'',
     isAutoCompleted = 1, jiraTicket = None\<rparr>"

text \<open>A timer is running and its session is open; nothing has been resumed yet.\<close>

definition sample_running :: state where
  "sample_running = \<lparr>sessionsDb = [sample_open], calls = [], lastResumeAt = 0,
     isLocked = False, lastIdle = False\<rparr>"

text \<open>The idle poller has stopped the timer at 10:00:00 and closed the session.\<close>

definition sample_stopped :: state where
  "sample_stopped = \<lparr>sessionsDb = [sample_auto_closed],
     calls = [GetActiveTimer, StopTimer, DbCompleteLatestSession ''2025-01-01T10:00:00.000Z'' True],
     lastResumeAt = 0, isLocked = False, lastIdle = True\<rparr>"

text \<open>The lock poller has then seen the screen locked and found no timer to stop.\<close>

definition sample_stopped_locked :: state where
  "sample_stopped_locked = \<lparr>sessionsDb = [sample_auto_closed],
     calls = [GetActiveTimer, StopTimer, DbCompleteLatestSession ''2025-01-01T10:00:00.000Z'' True,
              GetActiveTimer],
     lastResumeAt = 0, isLocked = True, lastIdle = True\<rparr>"

text \<open>
  The idle poller has then tried to resume at 10:00:20, the remote service has refused the
  new time entry, and the attempt has been stamped at 10:00:22.
\<close>

definition sample_cooling :: state where
  "sample_cooling = \<lparr>sessionsDb = [sample_auto_closed],
     calls = [GetActiveTimer, StopTimer, DbCompleteLatestSession ''2025-01-01T10:00:00.000Z'' True,
              GetActiveTimer, GetActiveTimer, GetUser,
              PostTimeEntry ''p1'' ''write report'' ''2025-01-01T10:00:21.000Z''],
     lastResumeAt = 1735725622000, isLocked = True, lastIdle = False\<rparr>"

definition sample_stop_ok :: stop_env where
  "sample_stop_ok = \<lparr>stop_active = True, stop_now_iso = ''2025-01-01T10:00:00.000Z'',
     stop_stopped = True\<rparr>"

definition sample_stop_fails :: stop_env where
  "sample_stop_fails = \<lparr>stop_active = True, stop_now_iso = ''2025-01-01T10:00:00.000Z'',
     stop_stopped = False\<rparr>"

definition sample_stop_no_timer :: stop_env where
  "sample_stop_no_timer = \<lparr>stop_active = False, stop_now_iso = ''2025-01-01T10:00:00.000Z'',
     stop_stopped = False\<rparr>"

definition sample_start_ok :: start_env where
  "sample_start_ok = \<lparr>user_ok = True, jira_reply_of = JiraNoTicket,
     started_iso = ''2025-01-01T10:00:21.000Z'', session_uuid = ''s3'', post_ok = True,
     notify_ok = True\<rparr>"

definition sample_start_other :: start_env where
  "sample_start_other = \<lparr>user_ok = True, jira_reply_of = JiraNoTicket,
     started_iso = ''2025-01-01T10:00:21.400Z'', session_uuid = ''s4'', post_ok = True,
     notify_ok = True\<rparr>"

definition sample_start_refused :: start_env where
  "sample_start_refused = \<lparr>user_ok = True, jira_reply_of = JiraNoTicket,
     started_iso = ''2025-01-01T10:00:21.000Z'', session_uuid = ''s3'', post_ok = False,
     notify_ok = True\<rparr>"

text \<open>
  Activity returns at 10:00:20 (seen by one handler, by a second one a millisecond later,
  or by one whose start is refused), at 10:00:26, and at 13:00:00.
\<close>

definition sample_restart :: restart_env where
  "sample_restart = \<lparr>t_enter = 1735725620000, restart_active = False, t_check = 1735725620800,
     restart_start = sample_start_ok, t_done = 1735725622000\<rparr>"

definition sample_restart_other :: restart_env where
  "sample_restart_other = \<lparr>t_enter = 1735725620001, restart_active = False,
     t_check = 1735725620900, restart_start = sample_start_other, t_done = 1735725622400\<rparr>"

definition sample_restart_refused :: restart_env where
  "sample_restart_refused = \<lparr>t_enter = 1735725620000, restart_active = False,
     t_check = 1735725620800, restart_start = sample_start_refused, t_done = 1735725622000\<rparr>"

definition sample_restart_soon :: restart_env where
  "sample_restart_soon = \<lparr>t_enter = 1735725626000, restart_active = False, t_check = 1735725626800,
     restart_start = sample_start_ok, t_done = 1735725628000\<rparr>"

definition sample_restart_late :: restart_env where
  "sample_restart_late = \<lparr>t_enter = 1735736399200, restart_active = False, t_check = 1735736400000,
     restart_start = sample_start_ok, t_done = 1735736401000\<rparr>"

definition sample_idle :: "real \<Rightarrow> stop_env \<Rightarrow> restart_env \<Rightarrow> idle_env" where
  "sample_idle seconds se r = \<lparr>idle_time = Some seconds, idle_stop = se, idle_restart = r\<rparr>"

definition sample_lock :: "bool \<Rightarrow> stop_env \<Rightarrow> restart_env \<Rightarrow> lock_env" where
  "sample_lock locked se r = \<lparr>lock_state = Some locked, lock_stop = se, lock_restart = r\<rparr>"

section \<open>Properties of the session store\<close>

lemmas sample_defs = sample_getTime_def sample_isoDaysAgo_def sample_open_def sample_open_later_def
  sample_closed_def sample_auto_closed_def sample_running_def sample_stopped_def
  sample_stopped_locked_def sample_cooling_def sample_stop_ok_def sample_stop_fails_def
  sample_stop_no_timer_def sample_start_ok_def sample_start_other_def sample_start_refused_def
  sample_restart_def sample_restart_other_def sample_restart_refused_def sample_restart_soon_def
  sample_restart_late_def sample_idle_def sample_lock_def

subsection \<open>Selecting the latest row\<close>

lemma topByStartedAt_mem: "topByStartedAt b rows \<in> set (b # rows)"
  by (induction rows arbitrary: b) auto

lemma topByStartedAt_ge_best: "startedAt b \<le> startedAt (topByStartedAt b rows)"
proof (induction rows arbitrary: b)
  case Nil
  show ?case by simp
next
  case (Cons s rows)
  show ?case
  proof (cases "startedAt b < startedAt s")
    case True
    with Cons.IH [of s] show ?thesis by simp
  next
    case False
    with Cons.IH [of b] show ?thesis by simp
  qed
qed

lemma topByStartedAt_max: "s \<in> set (b # rows) \<Longrightarrow> startedAt s \<le> startedAt (topByStartedAt b rows)"
proof (induction rows arbitrary: b)
  case Nil
  then show ?case by simp
next
  case (Cons r rows)
  let ?b' = "if startedAt b < startedAt r then r else b"
  have top: "topByStartedAt b (r # rows) = topByStartedAt ?b' rows" by simp
  have ge: "startedAt ?b' \<le> startedAt (topByStartedAt ?b' rows)"
    by (rule topByStartedAt_ge_best)
  from Cons.prems consider "s = b" | "s = r" | "s \<in> set rows" by auto
  then show ?case
  proof cases
    case 1
    have "startedAt b \<le> startedAt ?b'" by (simp add: less_imp_le)
    with ge 1 top show ?thesis by (metis order_trans)
  next
    case 2
    have "startedAt r \<le> startedAt ?b'" by (simp add: not_less)
    with ge 2 top show ?thesis by (metis order_trans)
  next
    case 3
    then have "s \<in> set (?b' # rows)" by simp
    from Cons.IH [OF this] top show ?thesis by simp
  qed
qed

lemma orderBy_None: "orderByStartedAtDescLimit1 rows = None \<longleftrightarrow> rows = []"
  by (simp add: orderByStartedAtDescLimit1_def split: list.splits)

lemma orderBy_Some:
  assumes "orderByStartedAtDescLimit1 rows = Some t"
  shows "t \<in> set rows" and "\<And>s. s \<in> set rows \<Longrightarrow> startedAt s \<le> startedAt t"
proof -
  from assms obtain b rest where rows: "rows = b # rest" and t: "t = topByStartedAt b rest"
    by (auto simp: orderByStartedAtDescLimit1_def split: list.splits)
  show "t \<in> set rows" unfolding rows t by (rule topByStartedAt_mem)
  fix s assume "s \<in> set rows"
  then show "startedAt s \<le> startedAt t" unfolding rows t by (rule topByStartedAt_max)
qed

lemma map_update_by_id:
  assumes "distinct (map id_col (pre @ t # post))"
  shows "map (\<lambda>s. if id_col s = id_col t then f s else s) (pre @ t # post) = pre @ f t # post"
proof -
  from assms have "id_col t \<notin> id_col ` set pre" and "id_col t \<notin> id_col ` set post"
    by auto
  then have "\<forall>s \<in> set pre. id_col s \<noteq> id_col t"
    and "\<forall>s \<in> set post. id_col s \<noteq> id_col t"
    by (metis imageI)+
  then have "map (\<lambda>s. if id_col s = id_col t then f s else s) pre = pre"
    and "map (\<lambda>s. if id_col s = id_col t then f s else s) post = post"
    by (simp_all add: map_idI)
  then show ?thesis by simp
qed

lemma complete_leaves_none_open:
  assumes "openCount db \<le> 1"
  shows "filter isOpen (completeLatestSession c a db) = []"
proof (cases "filter isOpen db")
  case Nil
  then show ?thesis
    by (simp add: completeLatestSession_def orderByStartedAtDescLimit1_def)
next
  case (Cons t rest)
  with assms have rest: "rest = []" by (simp add: openCount_def)
  with Cons have one: "filter isOpen db = [t]" by simp
  have only: "\<And>s. s \<in> set db \<Longrightarrow> isOpen s \<Longrightarrow> s = t"
  proof -
    fix s assume "s \<in> set db" "isOpen s"
    then have "s \<in> set (filter isOpen db)" by simp
    with one show "s = t" by simp
  qed
  define g where "g = (\<lambda>s. if id_col s = id_col t then closeRow c a s else s)"
  have upd: "completeLatestSession c a db = map g db"
    by (simp add: completeLatestSession_def orderByStartedAtDescLimit1_def one g_def)
  have "\<forall>s \<in> set db. \<not> isOpen (g s)"
    using only by (auto simp: isOpen_def closeRow_def g_def)
  then have "\<forall>x \<in> set (map g db). \<not> isOpen x" by simp
  then show ?thesis unfolding upd by (simp only: filter_empty_conv)
qed

lemma complete_noop_when_none_open:
  "filter isOpen db = [] \<Longrightarrow> completeLatestSession c a db = db"
  by (simp add: completeLatestSession_def orderByStartedAtDescLimit1_def)

subsection \<open>The primary key\<close>

text \<open>No operation of the store produces two rows with the same id.\<close>

lemma logSessionStart_distinct:
  "distinct (map id_col db) \<Longrightarrow> logSessionStart i p d t j db = Inr db' \<Longrightarrow> distinct (map id_col db')"
  by (auto simp: logSessionStart_def split: if_splits)

lemma completeLatestSession_ids: "map id_col (completeLatestSession c a db) = map id_col db"
  by (auto simp: completeLatestSession_def closeRow_def split: option.splits)

lemma deleteOldSessions_distinct:
  "distinct (map id_col db) \<Longrightarrow> deleteOldSessions isoDaysAgo days db = Inr db' \<Longrightarrow> distinct (map id_col db')"
  by (auto simp: deleteOldSessions_def distinct_map_filter split: option.splits)

lemma applyOp_distinct: "distinct (map id_col db) \<Longrightarrow> distinct (map id_col (applyOp x db))"
  by (cases x) (auto simp: completeLatestSession_ids dest: logSessionStart_distinct split: sum.splits)

lemma runOps_distinct: "distinct (map id_col db) \<Longrightarrow> distinct (map id_col (runOps ops db))"
  by (induction ops arbitrary: db) (auto simp: applyOp_distinct)

subsection \<open>Closing the open session\<close>

text \<open>
  Claim C8. On a table with unique ids, \<open>completeLatestSession\<close> changes exactly one row when
  some row has no \<open>completedAt\<close>: a row without \<open>completedAt\<close> whose \<open>startedAt\<close> is the
  latest among such rows gets the given \<open>completedAt\<close> and \<open>isAutoCompleted\<close>, and every
  other row stays as it is. When no row is without \<open>completedAt\<close> the table is unchanged.
\<close>

theorem completeLatestSession_closes_latest_open:
  assumes ids: "distinct (map id_col db)"
  shows "(if \<exists>s \<in> set db. isOpen s
          then \<exists>pre t post. db = pre @ t # post \<and> isOpen t
                 \<and> (\<forall>s \<in> set db. isOpen s \<longrightarrow> startedAt s \<le> startedAt t)
                 \<and> completeLatestSession c a db =
                     pre @ t\<lparr>completedAt := Some c, isAutoCompleted := (if a then 1 else 0)\<rparr> # post
          else completeLatestSession c a db = db)"
proof (cases "\<exists>s \<in> set db. isOpen s")
  case False
  then have "filter isOpen db = []" by (simp add: filter_empty_conv)
  then have "completeLatestSession c a db = db"
    by (simp add: completeLatestSession_def orderByStartedAtDescLimit1_def)
  with False show ?thesis by simp
next
  case True
  then have "filter isOpen db \<noteq> []" by (simp add: filter_empty_conv)
  then obtain t where sel: "orderByStartedAtDescLimit1 (filter isOpen db) = Some t"
    using orderBy_None [of "filter isOpen db"] by (cases "orderByStartedAtDescLimit1 (filter isOpen db)") auto
  from orderBy_Some(1) [OF sel] have t_in: "t \<in> set db" and t_open: "isOpen t" by auto
  have t_max: "\<forall>s \<in> set db. isOpen s \<longrightarrow> startedAt s \<le> startedAt t"
    using orderBy_Some(2) [OF sel] by auto
  from t_in obtain pre post where split: "db = pre @ t # post"
    by (auto dest: split_list)
  have "completeLatestSession c a db = map (\<lambda>s. if id_col s = id_col t then closeRow c a s else s) db"
    by (simp add: completeLatestSession_def sel)
  also have "\<dots> = pre @ closeRow c a t # post"
    using ids unfolding split by (rule map_update_by_id)
  finally have "completeLatestSession c a db =
      pre @ t\<lparr>completedAt := Some c, isAutoCompleted := (if a then 1 else 0)\<rparr> # post"
    by (simp add: closeRow_def)
  with split t_open t_max True show ?thesis by auto
qed

text \<open>
  With two open rows and one closed row in the table, the later of the two open rows is the
  one that is closed.
\<close>

theorem completeLatestSession_closes_latest_open_witness:
  "distinct (map id_col [sample_open, sample_open_later, sample_closed])
   \<and> completeLatestSession ''2025-01-01T11:00:00.000Z'' True
         [sample_open, sample_open_later, sample_closed]
       = [sample_open,
          sample_open_later\<lparr>completedAt := Some ''2025-01-01T11:00:00.000Z'', isAutoCompleted := 1\<rparr>,
          sample_closed]"
proof -
  have h: "distinct (map id_col [sample_open, sample_open_later, sample_closed])"
    by (simp add: sample_defs)
  show ?thesis
    using h completeLatestSession_closes_latest_open [OF h, of "''2025-01-01T11:00:00.000Z''" True]
    by (simp add: sample_defs completeLatestSession_def orderByStartedAtDescLimit1_def isOpen_def
          closeRow_def)
qed

text \<open>
  Claim C9. On a table with at most one open row, a second \<open>completeLatestSession\<close> right
  after a first one, with any arguments, leaves the table as the first call left it.
\<close>

theorem completeLatestSession_twice:
  assumes "openCount db \<le> 1"
  shows "completeLatestSession c2 a2 (completeLatestSession c1 a1 db) = completeLatestSession c1 a1 db"
  using complete_leaves_none_open [OF assms] by (rule complete_noop_when_none_open)

theorem completeLatestSession_twice_witness:
  "openCount [sample_closed, sample_open] \<le> 1
   \<and> completeLatestSession ''2025-01-01T12:00:00.000Z'' False
       (completeLatestSession ''2025-01-01T10:00:00.000Z'' True [sample_closed, sample_open])
     = [sample_closed, sample_auto_closed]"
proof -
  have h: "openCount [sample_closed, sample_open] \<le> 1"
    by (simp add: openCount_def isOpen_def sample_defs)
  have first: "completeLatestSession ''2025-01-01T10:00:00.000Z'' True [sample_closed, sample_open]
      = [sample_closed, sample_auto_closed]"
    by (simp add: sample_defs completeLatestSession_def orderByStartedAtDescLimit1_def isOpen_def
          closeRow_def)
  show ?thesis
    using h completeLatestSession_twice [OF h, of "''2025-01-01T12:00:00.000Z''" False
        "''2025-01-01T10:00:00.000Z''" True]
    by (simp only: first simp_thms)
qed

text \<open>
  Without the bound on the open rows the second call is not void: after two starts the
  table has two open rows, the first call closes the later one and the second call closes
  the earlier one.
\<close>

theorem second_close_changes_store_counterexample:
  "openCount [sample_open, sample_open_later] = 2
   \<and> openCount (completeLatestSession ''2025-01-01T11:00:00.000Z'' False
                   [sample_open, sample_open_later]) = 1
   \<and> openCount (completeLatestSession ''2025-01-01T12:00:00.000Z'' False
                   (completeLatestSession ''2025-01-01T11:00:00.000Z'' False
                      [sample_open, sample_open_later])) = 0
   \<and> completeLatestSession ''2025-01-01T12:00:00.000Z'' False
       (completeLatestSession ''2025-01-01T11:00:00.000Z'' False [sample_open, sample_open_later])
     \<noteq> completeLatestSession ''2025-01-01T11:00:00.000Z'' False [sample_open, sample_open_later]"
  by (simp add: sample_defs completeLatestSession_def orderByStartedAtDescLimit1_def isOpen_def
        closeRow_def openCount_def)

subsection \<open>Open sessions along a sequence of operations\<close>

lemma openCount_logSessionStart:
  "logSessionStart i p d t j db = Inr db' \<Longrightarrow> openCount db' = Suc (openCount db)"
  by (auto simp: logSessionStart_def openCount_def isOpen_def split: if_splits)

lemma closesBeforeStarts_take: "closesBeforeStarts pending ops \<Longrightarrow> closesBeforeStarts pending (take n ops)"
proof (induction pending ops arbitrary: n rule: closesBeforeStarts.induct)
  case (1 pending)
  show ?case by simp
next
  case (2 pending i p d t j ops)
  then show ?case by (cases n) auto
next
  case (3 pending c a ops)
  then show ?case by (cases n) auto
qed

lemma runOps_at_most_one_open:
  "closesBeforeStarts pending ops \<Longrightarrow> openCount db \<le> (if pending then 1 else 0)
     \<Longrightarrow> openCount (runOps ops db) \<le> 1"
proof (induction pending ops arbitrary: db rule: closesBeforeStarts.induct)
  case (1 pending)
  then show ?case by (simp split: if_splits)
next
  case (2 pending i p d t j ops)
  from "2.prems" have np: "\<not> pending" and rest: "closesBeforeStarts True ops" and zero: "openCount db = 0"
    by auto
  have "openCount (applyOp (LogSessionStart i p d t j) db) \<le> 1"
    using zero by (auto split: sum.splits dest: openCount_logSessionStart)
  with "2.IH" [OF rest] show ?case by simp
next
  case (3 pending c a ops)
  from "3.prems" have one: "openCount db \<le> 1" by (simp split: if_splits)
  have "openCount (completeLatestSession c a db) = 0"
    using complete_leaves_none_open [OF one] by (simp add: openCount_def)
  with "3.IH" [of "completeLatestSession c a db"] "3.prems" show ?case by simp
qed

text \<open>
  Claim C1. Starting from the empty table, along every sequence of \<open>logSessionStart\<close> and
  \<open>completeLatestSession\<close> in which no two starts follow each other without a completion
  in between, at most one row has no \<open>completedAt\<close> after every prefix of the sequence.
\<close>

theorem at_most_one_open_when_closed_before_start:
  assumes "closesBeforeStarts False ops"
  shows "openCount (runOps (take n ops) []) \<le> 1"
proof -
  from assms have "closesBeforeStarts False (take n ops)" by (rule closesBeforeStarts_take)
  moreover have "openCount [] \<le> (if False then 1 else 0)" by (simp add: openCount_def)
  ultimately show ?thesis by (rule runOps_at_most_one_open)
qed

theorem at_most_one_open_when_closed_before_start_witness:
  "closesBeforeStarts False
     [LogSessionStart ''a'' ''p1'' ''write'' ''2025-01-01T09:00:00.000Z'' None,
      CompleteLatestSession ''2025-01-01T10:00:00.000Z'' False,
      LogSessionStart ''b'' ''p1'' ''write'' ''2025-01-01T11:00:00.000Z'' None]
   \<and> openCount (runOps (take 3
     [LogSessionStart ''a'' ''p1'' ''write'' ''2025-01-01T09:00:00.000Z'' None,
      CompleteLatestSession ''2025-01-01T10:00:00.000Z'' False,
      LogSessionStart ''b'' ''p1'' ''write'' ''2025-01-01T11:00:00.000Z'' None]) []) \<le> 1"
proof -
  have h: "closesBeforeStarts False
     [LogSessionStart ''a'' ''p1'' ''write'' ''2025-01-01T09:00:00.000Z'' None,
      CompleteLatestSession ''2025-01-01T10:00:00.000Z'' False,
      LogSessionStart ''b'' ''p1'' ''write'' ''2025-01-01T11:00:00.000Z'' None]"
    by simp
  from at_most_one_open_when_closed_before_start [OF h, of 3] h show ?thesis by simp
qed

text \<open>
  The store itself does not keep the number of open rows below two: two starts in a row
  leave two open rows.
\<close>

theorem two_starts_leave_two_open_counterexample:
  "openCount (runOps
     [LogSessionStart ''a'' ''p1'' ''write'' ''2025-01-01T09:00:00.000Z'' None,
      LogSessionStart ''b'' ''p1'' ''review'' ''2025-01-01T09:30:00.000Z'' None] []) = 2"
  by (simp add: logSessionStart_def openCount_def isOpen_def)

subsection \<open>Deleting old sessions\<close>

text \<open>
  Claim C2. When the cutoff date can be rendered, \<open>deleteOldSessions\<close> deletes exactly the
  rows whose \<open>startedAt\<close> is strictly before the cutoff and keeps, in their order, the rows
  at or after it; the number of rows removed is the number of rows before the cutoff. An
  open row before the cutoff is deleted like any other. The function returns no value.
\<close>

theorem deleteOldSessions_by_cutoff_only:
  assumes "isoDaysAgo days = Some cutoff"
  shows "\<exists>db'. deleteOldSessions isoDaysAgo days db = Inr db'
           \<and> db' = filter (\<lambda>s. cutoff \<le> startedAt s) db
           \<and> (\<forall>s \<in> set db. s \<in> set db' \<longleftrightarrow> \<not> startedAt s < cutoff)
           \<and> length db = length db' + length (filter (\<lambda>s. startedAt s < cutoff) db)
           \<and> (\<forall>s \<in> set db. isOpen s \<and> startedAt s < cutoff \<longrightarrow> s \<notin> set db')"
proof -
  have eq: "deleteOldSessions isoDaysAgo days db = Inr (filter (\<lambda>s. \<not> startedAt s < cutoff) db)"
    using assms by (simp add: deleteOldSessions_def)
  have len: "length db = length (filter (\<lambda>s. \<not> startedAt s < cutoff) db)
                         + length (filter (\<lambda>s. startedAt s < cutoff) db)"
    using sum_length_filter_compl [of "\<lambda>s. startedAt s < cutoff" db] by simp
  have flt: "filter (\<lambda>s. \<not> startedAt s < cutoff) db = filter (\<lambda>s. cutoff \<le> startedAt s) db"
    by (simp add: not_less)
  show ?thesis using eq len flt by auto
qed

theorem deleteOldSessions_by_cutoff_only_witness:
  "sample_isoDaysAgo 5 = Some ''2025-01-05T00:00:00.000Z''
   \<and> deleteOldSessions sample_isoDaysAgo 5
        [sample_closed, sample_open\<lparr>startedAt := ''2025-01-05T00:00:00.000Z''\<rparr>]
     = Inr [sample_open\<lparr>startedAt := ''2025-01-05T00:00:00.000Z''\<rparr>]"
  using deleteOldSessions_by_cutoff_only
      [of sample_isoDaysAgo 5 "''2025-01-05T00:00:00.000Z''"
        "[sample_closed, sample_open\<lparr>startedAt := ''2025-01-05T00:00:00.000Z''\<rparr>]"]
  by (simp add: sample_defs)

text \<open>
  An open session started four days before the cutoff is removed: the table is empty
  afterwards.
\<close>

theorem old_open_session_is_deleted_counterexample:
  "completedAt sample_open = None
   \<and> startedAt sample_open < ''2025-01-05T00:00:00.000Z''
   \<and> deleteOldSessions sample_isoDaysAgo 5 [sample_open] = Inr []"
  by (simp add: deleteOldSessions_def sample_defs)

subsection \<open>Reading the latest session\<close>

text \<open>
  On a table with at least one row \<open>getLatestSession\<close> returns a row whose \<open>startedAt\<close> is
  the latest of all, open or closed.
\<close>

lemma getLatestSession_nonempty:
  assumes "db \<noteq> []"
  shows "\<exists>s. getLatestSession db = Inr s \<and> s \<in> set db \<and> (\<forall>r \<in> set db. startedAt r \<le> startedAt s)"
proof -
  from assms obtain s where sel: "orderByStartedAtDescLimit1 db = Some s"
    using orderBy_None [of db] by (cases "orderByStartedAtDescLimit1 db") auto
  from orderBy_Some [OF sel] sel show ?thesis by (auto simp: getLatestSession_def)
qed

text \<open>
  Claim C3. On the empty table \<open>getLatestSession\<close> does not return an absent value: the
  schema check throws.
\<close>

theorem getLatestSession_empty_store_throws:
  "getLatestSession [] = Inl ZodError"
  by (simp add: getLatestSession_def orderByStartedAtDescLimit1_def)


section \<open>Properties of the monitor\<close>

lemmas monitor_defs = idleInterval_def pollInterval_def stopTimerAndLog_def safeRestartTimerIfNeeded_def
  startTimer_def eligible_def truthy_def jiraWorklog_def timeSpentSeconds_def Let_def
  getLatestSession_def orderByStartedAtDescLimit1_def completeLatestSession_def isOpen_def
  closeRow_def logSessionStart_def RESUME_COOLDOWN_MS_def IDLE_THRESHOLD_SECONDS_def

text \<open>
  The sample states follow one another: the idle poller stops the running timer, the lock
  poller then finds nothing to stop, and a resume is refused by the remote service.
\<close>

lemma sample_states_in_one_run:
  "idleInterval sample_getTime (sample_idle 305 sample_stop_ok sample_restart) sample_running
     = sample_stopped
   \<and> pollInterval sample_getTime (sample_lock True sample_stop_no_timer sample_restart) sample_stopped
     = sample_stopped_locked
   \<and> idleInterval sample_getTime (sample_idle 0 sample_stop_ok sample_restart_refused) sample_stopped_locked
     = sample_cooling"
  by (simp add: sample_defs monitor_defs)

subsection \<open>Counting the timers started\<close>

lemma timerStarts_simps [simp]:
  "timerStarts [] = 0"
  "timerStarts (cs @ ds) = timerStarts cs + timerStarts ds"
  "timerStarts (PostTimeEntry p d t # cs) = Suc (timerStarts cs)"
  "timerStarts (GetUser # cs) = timerStarts cs"
  "timerStarts (GetActiveTimer # cs) = timerStarts cs"
  "timerStarts (StopTimer # cs) = timerStarts cs"
  "timerStarts (GetProjectById p # cs) = timerStarts cs"
  "timerStarts (SendNotification # cs) = timerStarts cs"
  "timerStarts (GetJiraTicket j # cs) = timerStarts cs"
  "timerStarts (StopJiraTimer j n # cs) = timerStarts cs"
  "timerStarts (DbLogSessionStart i # cs) = timerStarts cs"
  "timerStarts (DbCompleteLatestSession c a # cs) = timerStarts cs"
  by (simp_all add: timerStarts_def)

lemma startTimerCalls_simps [simp]:
  "startTimerCalls [] = 0"
  "startTimerCalls (cs @ ds) = startTimerCalls cs + startTimerCalls ds"
  "startTimerCalls (GetUser # cs) = Suc (startTimerCalls cs)"
  "e \<noteq> GetUser \<Longrightarrow> startTimerCalls (e # cs) = startTimerCalls cs"
  by (simp_all add: startTimerCalls_def)

lemma jiraWorklog_counts [simp]:
  "timerStarts (jiraWorklog getTime c s) = 0"
  "startTimerCalls (jiraWorklog getTime c s) = 0"
  by (simp_all add: jiraWorklog_def split: option.splits)

subsection \<open>What each function leaves alone\<close>

lemma startTimer_keeps:
  "lastResumeAt (snd (startTimer env pid descr jira st)) = lastResumeAt st"
  "isLocked (snd (startTimer env pid descr jira st)) = isLocked st"
  "lastIdle (snd (startTimer env pid descr jira st)) = lastIdle st"
  by (simp_all add: startTimer_def Let_def split: option.splits sum.splits)

lemma startTimer_counts:
  "timerStarts (calls (snd (startTimer env pid descr jira st))) \<le> Suc (timerStarts (calls st))"
  "startTimerCalls (calls (snd (startTimer env pid descr jira st))) = Suc (startTimerCalls (calls st))"
  by (simp_all add: startTimer_def Let_def split: option.splits sum.splits)

lemma startTimer_resume_ok:
  assumes "user_ok env" and "post_ok env" and "session_uuid env \<notin> set (map id_col (sessionsDb st))"
  shows "snd (startTimer env pid (Some d) None st) =
     st\<lparr>sessionsDb := sessionsDb st @
            [\<lparr>id_col = session_uuid env, projectId = pid, description = d,
              startedAt = started_iso env, completedAt = None, isAutoCompleted = 0,
              jiraTicket = None\<rparr>],
        calls := calls st @ [GetUser, PostTimeEntry pid d (started_iso env),
                             DbLogSessionStart (session_uuid env), GetProjectById pid,
                             SendNotification]\<rparr>"
  using assms by (simp add: startTimer_def Let_def truthy_def logSessionStart_def)

lemma stopTimerAndLog_keeps:
  "lastResumeAt (snd (stopTimerAndLog getTime env st)) = lastResumeAt st"
  "lastIdle (snd (stopTimerAndLog getTime env st)) = lastIdle st"
  "isLocked (snd (stopTimerAndLog getTime env st)) = isLocked st"
  "timerStarts (calls (snd (stopTimerAndLog getTime env st))) = timerStarts (calls st)"
  "startTimerCalls (calls (snd (stopTimerAndLog getTime env st))) = startTimerCalls (calls st)"
  "map id_col (sessionsDb (snd (stopTimerAndLog getTime env st))) = map id_col (sessionsDb st)"
  by (simp_all add: stopTimerAndLog_def Let_def completeLatestSession_ids split: sum.splits)

lemma safeRestart_blocked:
  "t_enter env - lastResumeAt st < RESUME_COOLDOWN_MS \<Longrightarrow>
     safeRestartTimerIfNeeded getTime env st = (Inr (), st)"
  by (simp add: safeRestartTimerIfNeeded_def)

lemma safeRestart_not_eligible:
  assumes "getLatestSession (sessionsDb st) = Inr s" and "\<not> eligible getTime (t_check env) s"
  shows "sessionsDb (snd (safeRestartTimerIfNeeded getTime env st)) = sessionsDb st"
    and "timerStarts (calls (snd (safeRestartTimerIfNeeded getTime env st))) = timerStarts (calls st)"
    and "startTimerCalls (calls (snd (safeRestartTimerIfNeeded getTime env st))) = startTimerCalls (calls st)"
    and "lastResumeAt (snd (safeRestartTimerIfNeeded getTime env st)) = lastResumeAt st"
  using assms by (simp_all add: safeRestartTimerIfNeeded_def Let_def)

lemma stale_not_eligible:
  assumes "completedAt s = Some c" and "c \<noteq> []" and "getTime c = Some t"
    and "t \<le> now - 2 * 60 * 60 * 1000"
  shows "\<not> eligible getTime now s"
  using assms by (simp add: eligible_def truthy_def)

subsection \<open>Stopping on inactivity\<close>

lemma stopTimerAndLog_stops_then_closes:
  assumes "stop_active se" and "stop_stopped se" and "getLatestSession (sessionsDb st) = Inr latest"
  shows "stopTimerAndLog getTime se st =
     (Inr True, st\<lparr>sessionsDb := completeLatestSession (stop_now_iso se) True (sessionsDb st),
                   calls := calls st @ [GetActiveTimer, StopTimer,
                              DbCompleteLatestSession (stop_now_iso se) True]
                            @ jiraWorklog getTime (stop_now_iso se) latest\<rparr>)"
  using assms by (simp add: stopTimerAndLog_def Let_def)

text \<open>
  Claim C6. On a tick that finds the machine inactive (the idle poller reading at least 300
  seconds, or the lock poller seeing the screen locked for the first time), if
  \<open>getActiveTimer\<close> reports a running timer, the session table is not empty and
  \<open>stopTimer\<close> returns the stopped entry, then the tick calls \<open>stopTimer\<close> first and
  \<open>completeLatestSession\<close> second, the latter with the time read at the start of the tick
  and \<open>isAutoCompleted = true\<close>; the only later call is the optional Jira work log.
\<close>

theorem inactive_tick_stops_remote_then_closes_local:
  assumes "stop_active se" and "stop_stopped se" and "getLatestSession (sessionsDb st) = Inr latest"
  shows "(let st' = st\<lparr>sessionsDb := completeLatestSession (stop_now_iso se) True (sessionsDb st),
                      calls := calls st @ [GetActiveTimer, StopTimer,
                                 DbCompleteLatestSession (stop_now_iso se) True]
                               @ jiraWorklog getTime (stop_now_iso se) latest\<rparr>
          in (idle_time ie = Some idleTime \<and> idleTime \<ge> IDLE_THRESHOLD_SECONDS \<and> idle_stop ie = se
                \<longrightarrow> idleInterval getTime ie st = st'\<lparr>lastIdle := True\<rparr>)
           \<and> (lock_state le = Some True \<and> \<not> isLocked st \<and> lock_stop le = se
                \<longrightarrow> pollInterval getTime le st = st'\<lparr>isLocked := True\<rparr>))"
proof -
  have lk: "getLatestSession (sessionsDb (st\<lparr>isLocked := True\<rparr>)) = Inr latest"
    using assms(3) by simp
  show ?thesis
    using stopTimerAndLog_stops_then_closes [OF assms, of getTime]
      stopTimerAndLog_stops_then_closes [OF assms(1,2) lk, of getTime]
    by (simp add: Let_def idleInterval_def pollInterval_def)
qed

theorem inactive_tick_stops_remote_then_closes_local_witness:
  "stop_active sample_stop_ok \<and> stop_stopped sample_stop_ok
   \<and> getLatestSession (sessionsDb sample_running) = Inr sample_open
   \<and> idle_time (sample_idle 305 sample_stop_ok sample_restart) = Some 305
   \<and> IDLE_THRESHOLD_SECONDS \<le> 305
   \<and> idleInterval sample_getTime (sample_idle 305 sample_stop_ok sample_restart) sample_running =
       \<lparr>sessionsDb = [sample_auto_closed],
        calls = [GetActiveTimer, StopTimer, DbCompleteLatestSession ''2025-01-01T10:00:00.000Z'' True],
        lastResumeAt = 0, isLocked = False, lastIdle = True\<rparr>
   \<and> lock_state (sample_lock True sample_stop_ok sample_restart) = Some True
   \<and> isLocked sample_running = False
   \<and> pollInterval sample_getTime (sample_lock True sample_stop_ok sample_restart) sample_running =
       \<lparr>sessionsDb = [sample_auto_closed],
        calls = [GetActiveTimer, StopTimer, DbCompleteLatestSession ''2025-01-01T10:00:00.000Z'' True],
        lastResumeAt = 0, isLocked = True, lastIdle = False\<rparr>"
proof -
  have h1: "stop_active sample_stop_ok" and h2: "stop_stopped sample_stop_ok"
    by (simp_all add: sample_defs)
  have h3: "getLatestSession (sessionsDb sample_running) = Inr sample_open"
    by (simp add: sample_defs getLatestSession_def orderByStartedAtDescLimit1_def)
  have closed: "completeLatestSession ''2025-01-01T10:00:00.000Z'' True [sample_open] = [sample_auto_closed]"
    by (simp add: sample_defs completeLatestSession_def orderByStartedAtDescLimit1_def isOpen_def closeRow_def)
  have nojira: "jiraWorklog sample_getTime ''2025-01-01T10:00:00.000Z'' sample_open = []"
    by (simp add: sample_defs jiraWorklog_def truthy_def)
  show ?thesis
    using inactive_tick_stops_remote_then_closes_local [of sample_stop_ok sample_running sample_open
        sample_getTime "sample_idle 305 sample_stop_ok sample_restart" 305
        "sample_lock True sample_stop_ok sample_restart", OF h1 h2 h3]
      h1 h2 h3 closed nojira
    by (simp add: sample_running_def sample_stop_ok_def sample_idle_def sample_lock_def
          IDLE_THRESHOLD_SECONDS_def Let_def)
qed

text \<open>
  Both added conditions are needed. When \<open>stopTimer\<close> returns nothing the open session
  stays open; and on an empty table the tick ends after \<open>getActiveTimer\<close>, before
  \<open>stopTimer\<close> is called, although a timer is running and the stop would succeed.
\<close>

theorem failed_stop_or_empty_store_counterexample:
  "stop_active sample_stop_fails
   \<and> idleInterval sample_getTime (sample_idle 305 sample_stop_fails sample_restart) sample_running =
       \<lparr>sessionsDb = [sample_open], calls = [GetActiveTimer, StopTimer],
        lastResumeAt = 0, isLocked = False, lastIdle = False\<rparr>
   \<and> completedAt sample_open = None
   \<and> stop_active sample_stop_ok \<and> stop_stopped sample_stop_ok
   \<and> idleInterval sample_getTime (sample_idle 305 sample_stop_ok sample_restart) initialState =
       \<lparr>sessionsDb = [], calls = [GetActiveTimer],
        lastResumeAt = 0, isLocked = False, lastIdle = False\<rparr>"
  by (simp add: sample_defs monitor_defs initialState_def)

lemma stopTimerAndLog_no_stop_no_close:
  assumes "\<not> stop_active se \<or> \<not> stop_stopped se"
  shows "sessionsDb (snd (stopTimerAndLog getTime se st)) = sessionsDb st
       \<and> (\<exists>cs. calls (snd (stopTimerAndLog getTime se st)) = calls st @ cs
               \<and> set cs \<subseteq> {GetActiveTimer, StopTimer})
       \<and> fst (stopTimerAndLog getTime se st) \<noteq> Inr True"
  using assms by (auto simp: stopTimerAndLog_def Let_def split: sum.splits)

text \<open>
  Claim C10. On a tick that finds the machine inactive, if \<open>getActiveTimer\<close> reports no
  running timer or \<open>stopTimer\<close> returns no stopped entry, the session table is unchanged
  and the only calls made are \<open>getActiveTimer\<close> and possibly \<open>stopTimer\<close>:
  \<open>completeLatestSession\<close> is not invoked. This holds for \<open>stopTimerAndLog\<close> and for both
  pollers.
\<close>

theorem store_unchanged_when_nothing_stopped:
  assumes "\<not> stop_active se \<or> \<not> stop_stopped se"
  shows "(sessionsDb (snd (stopTimerAndLog getTime se st)) = sessionsDb st
          \<and> (\<exists>cs. calls (snd (stopTimerAndLog getTime se st)) = calls st @ cs
                  \<and> set cs \<subseteq> {GetActiveTimer, StopTimer}))
       \<and> (idle_time ie = Some idleTime \<and> idleTime \<ge> IDLE_THRESHOLD_SECONDS \<and> idle_stop ie = se
            \<longrightarrow> sessionsDb (idleInterval getTime ie st) = sessionsDb st
              \<and> (\<exists>cs. calls (idleInterval getTime ie st) = calls st @ cs \<and> set cs \<subseteq> {GetActiveTimer, StopTimer}))
       \<and> (lock_state le = Some True \<and> \<not> isLocked st \<and> lock_stop le = se
            \<longrightarrow> sessionsDb (pollInterval getTime le st) = sessionsDb st
              \<and> (\<exists>cs. calls (pollInterval getTime le st) = calls st @ cs \<and> set cs \<subseteq> {GetActiveTimer, StopTimer}))"
proof (intro conjI impI)
  show "sessionsDb (snd (stopTimerAndLog getTime se st)) = sessionsDb st"
    using stopTimerAndLog_no_stop_no_close [OF assms] by simp
  show "\<exists>cs. calls (snd (stopTimerAndLog getTime se st)) = calls st @ cs \<and> set cs \<subseteq> {GetActiveTimer, StopTimer}"
    using stopTimerAndLog_no_stop_no_close [OF assms] by simp
next
  assume a: "idle_time ie = Some idleTime \<and> idleTime \<ge> IDLE_THRESHOLD_SECONDS \<and> idle_stop ie = se"
  obtain res st' where run: "stopTimerAndLog getTime se st = (res, st')"
    by (cases "stopTimerAndLog getTime se st")
  from stopTimerAndLog_no_stop_no_close [OF assms, of getTime st] run
  have nt: "res \<noteq> Inr True" and keep: "sessionsDb st' = sessionsDb st"
    and cs: "\<exists>cs. calls st' = calls st @ cs \<and> set cs \<subseteq> {GetActiveTimer, StopTimer}"
    by simp_all
  from a run nt have "idleInterval getTime ie st = st'"
    by (cases res) (auto simp: idleInterval_def)
  with keep cs show "sessionsDb (idleInterval getTime ie st) = sessionsDb st"
    and "\<exists>cs. calls (idleInterval getTime ie st) = calls st @ cs \<and> set cs \<subseteq> {GetActiveTimer, StopTimer}"
    by simp_all
next
  assume a: "lock_state le = Some True \<and> \<not> isLocked st \<and> lock_stop le = se"
  then have tick: "pollInterval getTime le st = snd (stopTimerAndLog getTime se (st\<lparr>isLocked := True\<rparr>))"
    by (simp add: pollInterval_def)
  from stopTimerAndLog_no_stop_no_close [OF assms, of getTime "st\<lparr>isLocked := True\<rparr>"] tick
  show "sessionsDb (pollInterval getTime le st) = sessionsDb st"
    and "\<exists>cs. calls (pollInterval getTime le st) = calls st @ cs \<and> set cs \<subseteq> {GetActiveTimer, StopTimer}"
    by simp_all
qed

theorem store_unchanged_when_nothing_stopped_witness:
  "stop_active sample_stop_no_timer = False
   \<and> idle_time (sample_idle 305 sample_stop_no_timer sample_restart) = Some 305
   \<and> IDLE_THRESHOLD_SECONDS \<le> 305
   \<and> sessionsDb (idleInterval sample_getTime (sample_idle 305 sample_stop_no_timer sample_restart) sample_running)
       = [sample_open]
   \<and> calls (idleInterval sample_getTime (sample_idle 305 sample_stop_no_timer sample_restart) sample_running)
       = [GetActiveTimer]
   \<and> stop_stopped sample_stop_fails = False
   \<and> isLocked sample_running = False
   \<and> sessionsDb (pollInterval sample_getTime (sample_lock True sample_stop_fails sample_restart) sample_running)
       = [sample_open]
   \<and> calls (pollInterval sample_getTime (sample_lock True sample_stop_fails sample_restart) sample_running)
       = [GetActiveTimer, StopTimer]"
proof -
  have h1: "\<not> stop_active sample_stop_no_timer \<or> \<not> stop_stopped sample_stop_no_timer"
    and h2: "\<not> stop_active sample_stop_fails \<or> \<not> stop_stopped sample_stop_fails"
    by (simp_all add: sample_defs)
  have c1: "calls (idleInterval sample_getTime (sample_idle 305 sample_stop_no_timer sample_restart) sample_running)
       = [GetActiveTimer]"
    and c2: "calls (pollInterval sample_getTime (sample_lock True sample_stop_fails sample_restart) sample_running)
       = [GetActiveTimer, StopTimer]"
    by (simp_all add: sample_defs monitor_defs)
  show ?thesis
    using store_unchanged_when_nothing_stopped [OF h1, of sample_getTime sample_running
        "sample_idle 305 sample_stop_no_timer sample_restart" 305
        "sample_lock True sample_stop_no_timer sample_restart"]
      store_unchanged_when_nothing_stopped [OF h2, of sample_getTime sample_running
        "sample_idle 305 sample_stop_fails sample_restart" 305
        "sample_lock True sample_stop_fails sample_restart"]
      c1 c2
    by (simp add: sample_running_def sample_stop_no_timer_def sample_stop_fails_def sample_idle_def
          sample_lock_def IDLE_THRESHOLD_SECONDS_def)
qed

subsection \<open>Resuming on activity\<close>

lemma safeRestart_resumes:
  assumes latest: "getLatestSession (sessionsDb st) = Inr s"
    and closed: "completedAt s = Some c" "c \<noteq> []" "getTime c = Some t"
    and auto: "isAutoCompleted s \<noteq> 0"
    and fresh: "t_check r - 2 * 60 * 60 * 1000 < t"
    and project: "projectId s \<noteq> []"
    and no_timer: "\<not> restart_active r"
    and cooled: "RESUME_COOLDOWN_MS \<le> t_enter r - lastResumeAt st"
    and remote: "user_ok (restart_start r)" "post_ok (restart_start r)"
    and uuid: "session_uuid (restart_start r) \<notin> set (map id_col (sessionsDb st))"
  shows "safeRestartTimerIfNeeded getTime r st =
     (Inr (), st\<lparr>sessionsDb := sessionsDb st @
            [\<lparr>id_col = session_uuid (restart_start r), projectId = projectId s,
              description = description s, startedAt = started_iso (restart_start r),
              completedAt = None, isAutoCompleted = 0, jiraTicket = None\<rparr>],
        calls := calls st @ [GetActiveTimer, GetUser,
                             PostTimeEntry (projectId s) (description s) (started_iso (restart_start r)),
                             DbLogSessionStart (session_uuid (restart_start r)),
                             GetProjectById (projectId s), SendNotification],
        lastResumeAt := t_done r\<rparr>)"
proof -
  have el: "eligible getTime (t_check r) s"
    using closed auto fresh project by (simp add: eligible_def truthy_def)
  let ?st1 = "st\<lparr>calls := calls st @ [GetActiveTimer]\<rparr>"
  have uuid1: "session_uuid (restart_start r) \<notin> set (map id_col (sessionsDb ?st1))"
    using uuid by simp
  have "safeRestartTimerIfNeeded getTime r st =
      (Inr (), (snd (startTimer (restart_start r) (projectId s) (Some (description s)) None ?st1))
                 \<lparr>lastResumeAt := t_done r\<rparr>)"
    using latest cooled no_timer el by (simp add: safeRestartTimerIfNeeded_def Let_def)
  also note startTimer_resume_ok [OF remote uuid1]
  finally show ?thesis by simp
qed

text \<open>
  Claim C4. On a tick that finds the machine active again (the idle poller after it had
  stopped a timer, or the lock poller after it had seen the screen locked), if the latest
  session is closed and auto-completed, its \<open>completedAt\<close> is later than two hours before
  now, it has a project, \<open>getActiveTimer\<close> reports no running timer, at least ten seconds
  have passed since \<open>lastResumeAt\<close>, and the start succeeds (the user is fetched, the
  request is accepted, the new id is not in the table), then the tick posts exactly one
  time entry with the project and description of that session and appends exactly one
  session with the same project and description, no \<open>completedAt\<close> and
  \<open>isAutoCompleted = 0\<close>.
\<close>

theorem resume_on_transition_to_active:
  assumes latest: "getLatestSession (sessionsDb st) = Inr s"
    and closed: "completedAt s = Some c" "c \<noteq> []" "getTime c = Some t"
    and auto: "isAutoCompleted s \<noteq> 0"
    and fresh: "t_check r - 2 * 60 * 60 * 1000 < t"
    and project: "projectId s \<noteq> []"
    and no_timer: "\<not> restart_active r"
    and cooled: "RESUME_COOLDOWN_MS \<le> t_enter r - lastResumeAt st"
    and remote: "user_ok (restart_start r)" "post_ok (restart_start r)"
    and uuid: "session_uuid (restart_start r) \<notin> set (map id_col (sessionsDb st))"
  shows "(let st' = st\<lparr>sessionsDb := sessionsDb st @
                        [\<lparr>id_col = session_uuid (restart_start r), projectId = projectId s,
                          description = description s, startedAt = started_iso (restart_start r),
                          completedAt = None, isAutoCompleted = 0, jiraTicket = None\<rparr>],
                      calls := calls st @ [GetActiveTimer, GetUser,
                          PostTimeEntry (projectId s) (description s) (started_iso (restart_start r)),
                          DbLogSessionStart (session_uuid (restart_start r)),
                          GetProjectById (projectId s), SendNotification],
                      lastResumeAt := t_done r\<rparr>
          in (idle_time ie = Some idleTime \<and> idleTime < IDLE_THRESHOLD_SECONDS \<and> lastIdle st
                \<and> idle_restart ie = r \<longrightarrow> idleInterval getTime ie st = st'\<lparr>lastIdle := False\<rparr>)
           \<and> (lock_state le = Some False \<and> isLocked st \<and> lock_restart le = r
                \<longrightarrow> pollInterval getTime le st = st'\<lparr>isLocked := False\<rparr>))"
  using safeRestart_resumes [of st s c getTime t r, OF assms]
  by (simp add: Let_def idleInterval_def pollInterval_def)

theorem resume_on_transition_to_active_witness:
  "getLatestSession (sessionsDb sample_stopped_locked) = Inr sample_auto_closed
   \<and> completedAt sample_auto_closed = Some ''2025-01-01T10:00:00.000Z''
   \<and> sample_getTime ''2025-01-01T10:00:00.000Z'' = Some 1735725600000
   \<and> isAutoCompleted sample_auto_closed = 1
   \<and> t_check sample_restart - 2 * 60 * 60 * 1000 < 1735725600000
   \<and> projectId sample_auto_closed = ''p1''
   \<and> restart_active sample_restart = False
   \<and> RESUME_COOLDOWN_MS \<le> t_enter sample_restart - lastResumeAt sample_stopped_locked
   \<and> user_ok (restart_start sample_restart)
   \<and> post_ok (restart_start sample_restart)
   \<and> session_uuid (restart_start sample_restart) \<notin> set (map id_col (sessionsDb sample_stopped_locked))
   \<and> idleInterval sample_getTime (sample_idle 0 sample_stop_ok sample_restart) sample_stopped_locked =
       \<lparr>sessionsDb = [sample_auto_closed,
           \<lparr>id_col = ''s3'', projectId = ''p1'', description = ''write report'',
            startedAt = ''2025-01-01T10:00:21.000Z'', completedAt = None, isAutoCompleted = 0,
            jiraTicket = None\<rparr>],
        calls = [GetActiveTimer, StopTimer, DbCompleteLatestSession ''2025-01-01T10:00:00.000Z'' True,
                 GetActiveTimer, GetActiveTimer, GetUser, PostTimeEntry ''p1'' ''write report'' ''2025-01-01T10:00:21.000Z'',
                 DbLogSessionStart ''s3'', GetProjectById ''p1'', SendNotification],
        lastResumeAt = 1735725622000, isLocked = True, lastIdle = False\<rparr>
   \<and> pollInterval sample_getTime (sample_lock False sample_stop_ok sample_restart) sample_stopped_locked =
       \<lparr>sessionsDb = [sample_auto_closed,
           \<lparr>id_col = ''s3'', projectId = ''p1'', description = ''write report'',
            startedAt = ''2025-01-01T10:00:21.000Z'', completedAt = None, isAutoCompleted = 0,
            jiraTicket = None\<rparr>],
        calls = [GetActiveTimer, StopTimer, DbCompleteLatestSession ''2025-01-01T10:00:00.000Z'' True,
                 GetActiveTimer, GetActiveTimer, GetUser, PostTimeEntry ''p1'' ''write report'' ''2025-01-01T10:00:21.000Z'',
                 DbLogSessionStart ''s3'', GetProjectById ''p1'', SendNotification],
        lastResumeAt = 1735725622000, isLocked = False, lastIdle = True\<rparr>"
proof -
  have h1: "getLatestSession (sessionsDb sample_stopped_locked) = Inr sample_auto_closed"
    by (simp add: sample_defs getLatestSession_def orderByStartedAtDescLimit1_def)
  have h2: "completedAt sample_auto_closed = Some ''2025-01-01T10:00:00.000Z''"
    and h3: "''2025-01-01T10:00:00.000Z'' \<noteq> []"
    and h4: "sample_getTime ''2025-01-01T10:00:00.000Z'' = Some 1735725600000"
    and h5: "isAutoCompleted sample_auto_closed \<noteq> 0"
    and h6: "t_check sample_restart - 2 * 60 * 60 * 1000 < 1735725600000"
    and h7: "projectId sample_auto_closed \<noteq> []"
    and h8: "\<not> restart_active sample_restart"
    and h9: "RESUME_COOLDOWN_MS \<le> t_enter sample_restart - lastResumeAt sample_stopped_locked"
    and h10: "user_ok (restart_start sample_restart)"
    and h11: "post_ok (restart_start sample_restart)"
    and h12: "session_uuid (restart_start sample_restart) \<notin> set (map id_col (sessionsDb sample_stopped_locked))"
    by (simp_all add: sample_defs RESUME_COOLDOWN_MS_def)
  show ?thesis
    using resume_on_transition_to_active [of sample_stopped_locked sample_auto_closed
        "''2025-01-01T10:00:00.000Z''" sample_getTime 1735725600000 sample_restart
        "sample_idle 0 sample_stop_ok sample_restart" 0
        "sample_lock False sample_stop_ok sample_restart",
        OF h1 h2 h3 h4 h5 h6 h7 h8 h9 h10 h11 h12]
      h1 h9
    by (simp add: sample_defs IDLE_THRESHOLD_SECONDS_def Let_def)
qed

text \<open>
  Both added conditions are needed. The latest session is closed, auto-completed, twenty
  seconds old and has a project, and no timer is running. At 10:00:20 the idle poller
  tries to resume, the remote service refuses the new time entry, and no session is
  appended. At 10:00:26 the lock poller sees the screen unlocked; the remote service would
  now accept the start, but four seconds after the stamped attempt the call returns at
  once, and the tick only resets \<open>isLocked\<close>.
\<close>

theorem no_resume_during_cooldown_counterexample:
  "getLatestSession (sessionsDb sample_stopped_locked) = Inr sample_auto_closed
   \<and> completedAt sample_auto_closed = Some ''2025-01-01T10:00:00.000Z''
   \<and> sample_getTime ''2025-01-01T10:00:00.000Z'' = Some 1735725600000
   \<and> isAutoCompleted sample_auto_closed = 1
   \<and> projectId sample_auto_closed = ''p1''
   \<and> t_check sample_restart_refused - 2 * 60 * 60 * 1000 < 1735725600000
   \<and> 1735725600000 \<le> t_check sample_restart_refused
   \<and> restart_active sample_restart_refused = False
   \<and> lastIdle sample_stopped_locked
   \<and> idleInterval sample_getTime (sample_idle 0 sample_stop_ok sample_restart_refused) sample_stopped_locked
       = sample_cooling
   \<and> sessionsDb sample_cooling = sessionsDb sample_stopped_locked
   \<and> getLatestSession (sessionsDb sample_cooling) = Inr sample_auto_closed
   \<and> t_check sample_restart_soon - 2 * 60 * 60 * 1000 < 1735725600000
   \<and> 1735725600000 \<le> t_check sample_restart_soon
   \<and> restart_active sample_restart_soon = False
   \<and> user_ok (restart_start sample_restart_soon)
   \<and> post_ok (restart_start sample_restart_soon)
   \<and> session_uuid (restart_start sample_restart_soon) \<notin> set (map id_col (sessionsDb sample_cooling))
   \<and> isLocked sample_cooling
   \<and> t_enter sample_restart_soon - lastResumeAt sample_cooling = 4000
   \<and> pollInterval sample_getTime (sample_lock False sample_stop_ok sample_restart_soon) sample_cooling
       = \<lparr>sessionsDb = [sample_auto_closed],
          calls = [GetActiveTimer, StopTimer, DbCompleteLatestSession ''2025-01-01T10:00:00.000Z'' True,
                   GetActiveTimer, GetActiveTimer, GetUser,
                   PostTimeEntry ''p1'' ''write report'' ''2025-01-01T10:00:21.000Z''],
          lastResumeAt = 1735725622000, isLocked = False, lastIdle = False\<rparr>"
  by (simp add: sample_defs monitor_defs)

text \<open>
  Claim C7. When the latest session was completed exactly three hours before the time read
  by \<open>safeRestartTimerIfNeeded\<close>, a tick that finds the machine active again starts no
  timer and appends no session: the table is unchanged, \<open>startTimer\<close> is not called and no
  time entry is posted. This holds whether or not the session is auto-completed.
\<close>

theorem stale_session_not_resumed:
  assumes latest: "getLatestSession (sessionsDb st) = Inr s"
    and closed: "completedAt s = Some c" "c \<noteq> []" "getTime c = Some t"
    and stale: "t = t_check (restartEnvOf k) - 3 * 60 * 60 * 1000"
    and active: "case k of LockPoll le \<Rightarrow> lock_state le = Some False \<and> isLocked st
                         | IdleTick ie \<Rightarrow> (\<exists>i. idle_time ie = Some i \<and> i < IDLE_THRESHOLD_SECONDS) \<and> lastIdle st"
  shows "sessionsDb (runTick getTime k st) = sessionsDb st
       \<and> timerStarts (calls (runTick getTime k st)) = timerStarts (calls st)
       \<and> startTimerCalls (calls (runTick getTime k st)) = startTimerCalls (calls st)"
proof -
  have ne: "\<not> eligible getTime (t_check (restartEnvOf k)) s"
    using closed stale by (intro stale_not_eligible [of s c getTime t]) simp_all
  note keep = safeRestart_not_eligible [OF latest ne]
  show ?thesis
  proof (cases k)
    case (LockPoll le)
    obtain res st' where run: "safeRestartTimerIfNeeded getTime (lock_restart le) st = (res, st')"
      by (cases "safeRestartTimerIfNeeded getTime (lock_restart le) st")
    with active LockPoll have "sessionsDb (runTick getTime k st) = sessionsDb st'"
      and "calls (runTick getTime k st) = calls st'"
      by (auto simp: pollInterval_def split: sum.splits)
    with keep(1-3) run LockPoll show ?thesis by simp
  next
    case (IdleTick ie)
    obtain res st' where run: "safeRestartTimerIfNeeded getTime (idle_restart ie) st = (res, st')"
      by (cases "safeRestartTimerIfNeeded getTime (idle_restart ie) st")
    with active IdleTick have "sessionsDb (runTick getTime k st) = sessionsDb st'"
      and "calls (runTick getTime k st) = calls st'"
      by (auto simp: idleInterval_def split: sum.splits)
    with keep(1-3) run IdleTick show ?thesis by simp
  qed
qed

theorem stale_session_not_resumed_witness:
  "getLatestSession (sessionsDb sample_stopped) = Inr sample_auto_closed
   \<and> completedAt sample_auto_closed = Some ''2025-01-01T10:00:00.000Z''
   \<and> sample_getTime ''2025-01-01T10:00:00.000Z'' = Some 1735725600000
   \<and> 1735725600000 = t_check sample_restart_late - 3 * 60 * 60 * 1000
   \<and> idle_time (sample_idle 0 sample_stop_ok sample_restart_late) = Some 0
   \<and> (0::real) < IDLE_THRESHOLD_SECONDS
   \<and> lastIdle sample_stopped
   \<and> sessionsDb (idleInterval sample_getTime (sample_idle 0 sample_stop_ok sample_restart_late) sample_stopped)
        = [sample_auto_closed]
   \<and> timerStarts (calls (idleInterval sample_getTime (sample_idle 0 sample_stop_ok sample_restart_late) sample_stopped)) = 0
   \<and> startTimerCalls (calls (idleInterval sample_getTime (sample_idle 0 sample_stop_ok sample_restart_late) sample_stopped)) = 0"
proof -
  let ?k = "IdleTick (sample_idle 0 sample_stop_ok sample_restart_late)"
  have h1: "getLatestSession (sessionsDb sample_stopped) = Inr sample_auto_closed"
    by (simp add: sample_defs getLatestSession_def orderByStartedAtDescLimit1_def)
  have h2: "completedAt sample_auto_closed = Some ''2025-01-01T10:00:00.000Z''"
    and h3: "''2025-01-01T10:00:00.000Z'' \<noteq> []"
    and h4: "sample_getTime ''2025-01-01T10:00:00.000Z'' = Some 1735725600000"
    and h5: "1735725600000 = t_check (restartEnvOf ?k) - 3 * 60 * 60 * 1000"
    and h6: "case ?k of LockPoll le \<Rightarrow> lock_state le = Some False \<and> isLocked sample_stopped
                | IdleTick ie \<Rightarrow> (\<exists>i. idle_time ie = Some i \<and> i < IDLE_THRESHOLD_SECONDS) \<and> lastIdle sample_stopped"
    by (simp_all add: sample_defs IDLE_THRESHOLD_SECONDS_def)
  show ?thesis
    using stale_session_not_resumed [of sample_stopped sample_auto_closed "''2025-01-01T10:00:00.000Z''"
        sample_getTime 1735725600000 ?k, OF h1 h2 h3 h4 h5 h6] h1
    by (simp add: sample_defs IDLE_THRESHOLD_SECONDS_def)
qed

subsection \<open>The cooldown\<close>

text \<open>The three parts, run without interruption, are the function.\<close>

lemma safeRestartTimerIfNeeded_parts:
  "safeRestartTimerIfNeeded getTime env st =
     (if restartEntry env st
      then (case restartAfterSleep st of
              (Inl e, st1) \<Rightarrow> (Inl e, st1)
            | (Inr latestSession, st1) \<Rightarrow>
                (Inr (), restartAfterActiveTimer getTime env latestSession st1))
      else (Inr (), st))"
  by (simp add: safeRestartTimerIfNeeded_def restartEntry_def restartAfterSleep_def
        restartAfterActiveTimer_def Let_def split: sum.splits)

text \<open>
  Claim C5. No timer is to be started within ten seconds of the previous resume, so that
  two returns to activity within ten seconds give at most one resume. The monitor does not
  keep this when two calls of \<open>safeRestartTimerIfNeeded\<close> overlap. \<open>lastResumeAt\<close> is
  written only after \<open>await clockify.startTimer(...)\<close>; with the idle poller and the lock
  poller both waiting for activity, a second call entered one millisecond after the first
  still reads the old value and goes on, both calls are told that no timer is running
  before either posts, and each posts a time entry and appends an open session.
\<close>

theorem overlapping_restarts_resume_twice:
  "lastIdle sample_stopped_locked \<and> isLocked sample_stopped_locked
   \<and> t_enter sample_restart_other - t_enter sample_restart = 1
   \<and> restartEntry sample_restart sample_stopped_locked
   \<and> restartEntry sample_restart_other sample_stopped_locked
   \<and> fst (restartAfterSleep sample_stopped_locked) = Inr sample_auto_closed
   \<and> fst (restartAfterSleep (snd (restartAfterSleep sample_stopped_locked))) = Inr sample_auto_closed
   \<and> restartAfterActiveTimer sample_getTime sample_restart_other sample_auto_closed
       (restartAfterActiveTimer sample_getTime sample_restart sample_auto_closed
         (snd (restartAfterSleep (snd (restartAfterSleep sample_stopped_locked)))))
     = \<lparr>sessionsDb = [sample_auto_closed,
          \<lparr>id_col = ''s3'', projectId = ''p1'', description = ''write report'',
           startedAt = ''2025-01-01T10:00:21.000Z'', completedAt = None, isAutoCompleted = 0,
           jiraTicket = None\<rparr>,
          \<lparr>id_col = ''s4'', projectId = ''p1'', description = ''write report'',
           startedAt = ''2025-01-01T10:00:21.400Z'', completedAt = None, isAutoCompleted = 0,
           jiraTicket = None\<rparr>],
        calls = [GetActiveTimer, StopTimer, DbCompleteLatestSession ''2025-01-01T10:00:00.000Z'' True,
                 GetActiveTimer,
                 GetActiveTimer, GetActiveTimer,
                 GetUser, PostTimeEntry ''p1'' ''write report'' ''2025-01-01T10:00:21.000Z'',
                 DbLogSessionStart ''s3'', GetProjectById ''p1'', SendNotification,
                 GetUser, PostTimeEntry ''p1'' ''write report'' ''2025-01-01T10:00:21.400Z'',
                 DbLogSessionStart ''s4'', GetProjectById ''p1'', SendNotification],
        lastResumeAt = 1735725622400, isLocked = True, lastIdle = True\<rparr>"
  by (simp add: sample_defs restartEntry_def restartAfterSleep_def restartAfterActiveTimer_def
        startTimer_def eligible_def truthy_def Let_def getLatestSession_def
        orderByStartedAtDescLimit1_def logSessionStart_def RESUME_COOLDOWN_MS_def)

text \<open>
  For ticks handled one after the other the cooldown works. A call entered less than ten
  seconds after \<open>lastResumeAt\<close> returns at once and changes nothing; a call that gets as
  far as \<open>startTimer\<close> stamps \<open>lastResumeAt\<close> with the time read after it; and any run of
  ticks of either poller, all entered within one window of ten seconds on a clock that does
  not go back during a call, posts at most one time entry and calls \<open>startTimer\<close> at most
  once.
\<close>

lemma safeRestart_step:
  "(timerStarts (calls (snd (safeRestartTimerIfNeeded getTime env st))) = timerStarts (calls st)
      \<and> startTimerCalls (calls (snd (safeRestartTimerIfNeeded getTime env st))) = startTimerCalls (calls st)
      \<and> lastResumeAt (snd (safeRestartTimerIfNeeded getTime env st)) = lastResumeAt st)
   \<or> (timerStarts (calls (snd (safeRestartTimerIfNeeded getTime env st))) \<le> Suc (timerStarts (calls st))
      \<and> startTimerCalls (calls (snd (safeRestartTimerIfNeeded getTime env st))) = Suc (startTimerCalls (calls st))
      \<and> lastResumeAt (snd (safeRestartTimerIfNeeded getTime env st)) = t_done env
      \<and> \<not> t_enter env - lastResumeAt st < RESUME_COOLDOWN_MS)"
proof (cases "t_enter env - lastResumeAt st < RESUME_COOLDOWN_MS")
  case True
  then show ?thesis by (simp add: safeRestart_blocked)
next
  case False
  show ?thesis
  proof (cases "getLatestSession (sessionsDb st)")
    case (Inl e)
    with False show ?thesis by (simp add: safeRestartTimerIfNeeded_def)
  next
    case (Inr s)
    show ?thesis
    proof (cases "restart_active env \<or> \<not> eligible getTime (t_check env) s")
      case True
      with False Inr show ?thesis by (auto simp: safeRestartTimerIfNeeded_def Let_def)
    next
      case False2: False
      let ?st1 = "st\<lparr>calls := calls st @ [GetActiveTimer]\<rparr>"
      let ?st2 = "snd (startTimer (restart_start env) (projectId s) (Some (description s)) None ?st1)"
      have res: "safeRestartTimerIfNeeded getTime env st = (Inr (), ?st2\<lparr>lastResumeAt := t_done env\<rparr>)"
        using False Inr False2 by (simp add: safeRestartTimerIfNeeded_def Let_def)
      have "timerStarts (calls ?st2) \<le> Suc (timerStarts (calls ?st1))"
        and "startTimerCalls (calls ?st2) = Suc (startTimerCalls (calls ?st1))"
        by (rule startTimer_counts)+
      with res False show ?thesis by simp
    qed
  qed
qed

lemma runTick_step:
  "(timerStarts (calls (runTick getTime k st)) = timerStarts (calls st)
      \<and> startTimerCalls (calls (runTick getTime k st)) = startTimerCalls (calls st)
      \<and> lastResumeAt (runTick getTime k st) = lastResumeAt st)
   \<or> (timerStarts (calls (runTick getTime k st)) \<le> Suc (timerStarts (calls st))
      \<and> startTimerCalls (calls (runTick getTime k st)) = Suc (startTimerCalls (calls st))
      \<and> lastResumeAt (runTick getTime k st) = t_done (restartEnvOf k)
      \<and> \<not> t_enter (restartEnvOf k) - lastResumeAt st < RESUME_COOLDOWN_MS)"
proof (cases k)
  case (LockPoll env)
  show ?thesis
  proof (cases "lock_state env")
    case None
    with LockPoll show ?thesis by (simp add: pollInterval_def)
  next
    case (Some locked)
    consider (stop) "locked \<and> \<not> isLocked st" | (restart) "\<not> locked \<and> isLocked st"
      | (none) "\<not> (locked \<and> \<not> isLocked st) \<and> \<not> (\<not> locked \<and> isLocked st)" by blast
    then show ?thesis
    proof cases
      case stop
      with LockPoll Some show ?thesis by (simp add: pollInterval_def stopTimerAndLog_keeps)
    next
      case restart
      obtain r st' where run: "safeRestartTimerIfNeeded getTime (lock_restart env) st = (r, st')"
        by (cases "safeRestartTimerIfNeeded getTime (lock_restart env) st")
      have tick: "calls (pollInterval getTime env st) = calls st'"
          "lastResumeAt (pollInterval getTime env st) = lastResumeAt st'"
        using Some restart run by (auto simp: pollInterval_def split: sum.splits)
      from safeRestart_step [of getTime "lock_restart env" st] run tick LockPoll
      show ?thesis by simp
    next
      case none
      with LockPoll Some show ?thesis by (auto simp: pollInterval_def)
    qed
  qed
next
  case (IdleTick env)
  show ?thesis
  proof (cases "idle_time env")
    case None
    with IdleTick show ?thesis by (simp add: idleInterval_def)
  next
    case (Some idleTime)
    consider (stop) "idleTime \<ge> IDLE_THRESHOLD_SECONDS"
      | (restart) "\<not> idleTime \<ge> IDLE_THRESHOLD_SECONDS" "lastIdle st"
      | (none) "\<not> idleTime \<ge> IDLE_THRESHOLD_SECONDS" "\<not> lastIdle st" by blast
    then show ?thesis
    proof cases
      case stop
      obtain r st' where run: "stopTimerAndLog getTime (idle_stop env) st = (r, st')"
        by (cases "stopTimerAndLog getTime (idle_stop env) st")
      have tick: "calls (idleInterval getTime env st) = calls st'"
          "lastResumeAt (idleInterval getTime env st) = lastResumeAt st'"
        using Some stop run by (auto simp: idleInterval_def split: sum.splits)
      from stopTimerAndLog_keeps(1,4,5) [of getTime "idle_stop env" st] run tick IdleTick
      show ?thesis by simp
    next
      case restart
      obtain r st' where run: "safeRestartTimerIfNeeded getTime (idle_restart env) st = (r, st')"
        by (cases "safeRestartTimerIfNeeded getTime (idle_restart env) st")
      have tick: "calls (idleInterval getTime env st) = calls st'"
          "lastResumeAt (idleInterval getTime env st) = lastResumeAt st'"
        using Some restart run by (auto simp: idleInterval_def split: sum.splits)
      from safeRestart_step [of getTime "idle_restart env" st] run tick IdleTick
      show ?thesis by simp
    next
      case none
      with IdleTick Some show ?thesis by (simp add: idleInterval_def)
    qed
  qed
qed

lemma runTicks_blocked:
  assumes "\<forall>k \<in> set ks. t_enter (restartEnvOf k) - lastResumeAt st < RESUME_COOLDOWN_MS"
  shows "timerStarts (calls (runTicks getTime ks st)) = timerStarts (calls st)
       \<and> startTimerCalls (calls (runTicks getTime ks st)) = startTimerCalls (calls st)"
  using assms
proof (induction ks arbitrary: st)
  case Nil
  show ?case by simp
next
  case (Cons k ks)
  from Cons.prems have blocked: "t_enter (restartEnvOf k) - lastResumeAt st < RESUME_COOLDOWN_MS" by simp
  with runTick_step [of getTime k st]
  have same: "timerStarts (calls (runTick getTime k st)) = timerStarts (calls st)"
      "startTimerCalls (calls (runTick getTime k st)) = startTimerCalls (calls st)"
      "lastResumeAt (runTick getTime k st) = lastResumeAt st"
    by auto
  with Cons.prems have "\<forall>k' \<in> set ks. t_enter (restartEnvOf k') - lastResumeAt (runTick getTime k st) < RESUME_COOLDOWN_MS"
    by simp
  from Cons.IH [OF this] same show ?case by simp
qed

lemma runTicks_window:
  assumes "\<forall>k \<in> set ks. t0 \<le> t_enter (restartEnvOf k)
              \<and> t_enter (restartEnvOf k) \<le> t_done (restartEnvOf k)
              \<and> t_enter (restartEnvOf k) < t0 + RESUME_COOLDOWN_MS"
  shows "timerStarts (calls (runTicks getTime ks st)) \<le> Suc (timerStarts (calls st))
       \<and> startTimerCalls (calls (runTicks getTime ks st)) \<le> Suc (startTimerCalls (calls st))"
  using assms
proof (induction ks arbitrary: st)
  case Nil
  show ?case by simp
next
  case (Cons k ks)
  let ?st1 = "runTick getTime k st"
  from Cons.prems have rest: "\<forall>k \<in> set ks. t0 \<le> t_enter (restartEnvOf k)
              \<and> t_enter (restartEnvOf k) \<le> t_done (restartEnvOf k)
              \<and> t_enter (restartEnvOf k) < t0 + RESUME_COOLDOWN_MS"
    and first: "t0 \<le> t_enter (restartEnvOf k)" "t_enter (restartEnvOf k) \<le> t_done (restartEnvOf k)"
    by simp_all
  from runTick_step [of getTime k st] consider
    (same) "timerStarts (calls ?st1) = timerStarts (calls st)"
           "startTimerCalls (calls ?st1) = startTimerCalls (calls st)"
    | (resumed) "timerStarts (calls ?st1) \<le> Suc (timerStarts (calls st))"
           "startTimerCalls (calls ?st1) = Suc (startTimerCalls (calls st))"
           "lastResumeAt ?st1 = t_done (restartEnvOf k)"
    by blast
  then show ?case
  proof cases
    case same
    with Cons.IH [OF rest, of ?st1] show ?thesis by simp
  next
    case resumed
    from first resumed(3) have "t0 \<le> lastResumeAt ?st1" by simp
    with rest have "\<forall>k' \<in> set ks. t_enter (restartEnvOf k') - lastResumeAt ?st1 < RESUME_COOLDOWN_MS"
      by fastforce
    from runTicks_blocked [OF this, of getTime] resumed show ?thesis by simp
  qed
qed

theorem cooldown_holds_for_ticks_in_sequence:
  "(t_enter r - lastResumeAt st < RESUME_COOLDOWN_MS \<longrightarrow>
      safeRestartTimerIfNeeded getTime r st = (Inr (), st))
   \<and> (startTimerCalls (calls (snd (safeRestartTimerIfNeeded getTime r st))) \<noteq> startTimerCalls (calls st) \<longrightarrow>
      lastResumeAt (snd (safeRestartTimerIfNeeded getTime r st)) = t_done r)
   \<and> ((\<forall>k \<in> set ks. t0 \<le> t_enter (restartEnvOf k)
              \<and> t_enter (restartEnvOf k) \<le> t_done (restartEnvOf k)
              \<and> t_enter (restartEnvOf k) < t0 + RESUME_COOLDOWN_MS) \<longrightarrow>
      timerStarts (calls (runTicks getTime ks st)) \<le> Suc (timerStarts (calls st))
      \<and> startTimerCalls (calls (runTicks getTime ks st)) \<le> Suc (startTimerCalls (calls st)))"
proof (intro conjI impI)
  assume "t_enter r - lastResumeAt st < RESUME_COOLDOWN_MS"
  then show "safeRestartTimerIfNeeded getTime r st = (Inr (), st)" by (rule safeRestart_blocked)
next
  assume "startTimerCalls (calls (snd (safeRestartTimerIfNeeded getTime r st))) \<noteq> startTimerCalls (calls st)"
  with safeRestart_step [of getTime r st]
  show "lastResumeAt (snd (safeRestartTimerIfNeeded getTime r st)) = t_done r" by auto
next
  assume w: "\<forall>k \<in> set ks. t0 \<le> t_enter (restartEnvOf k)
              \<and> t_enter (restartEnvOf k) \<le> t_done (restartEnvOf k)
              \<and> t_enter (restartEnvOf k) < t0 + RESUME_COOLDOWN_MS"
  from runTicks_window [OF w, of getTime st]
  show "timerStarts (calls (runTicks getTime ks st)) \<le> Suc (timerStarts (calls st))" by simp
next
  assume w: "\<forall>k \<in> set ks. t0 \<le> t_enter (restartEnvOf k)
              \<and> t_enter (restartEnvOf k) \<le> t_done (restartEnvOf k)
              \<and> t_enter (restartEnvOf k) < t0 + RESUME_COOLDOWN_MS"
  from runTicks_window [OF w, of getTime st]
  show "startTimerCalls (calls (runTicks getTime ks st)) \<le> Suc (startTimerCalls (calls st))" by simp
qed

theorem cooldown_holds_for_ticks_in_sequence_example:
  "t_enter sample_restart_soon - lastResumeAt sample_cooling < RESUME_COOLDOWN_MS
   \<and> safeRestartTimerIfNeeded sample_getTime sample_restart_soon sample_cooling = (Inr (), sample_cooling)
   \<and> startTimerCalls (calls (snd (safeRestartTimerIfNeeded sample_getTime sample_restart sample_stopped))) = 1
   \<and> startTimerCalls (calls sample_stopped) = 0
   \<and> lastResumeAt (snd (safeRestartTimerIfNeeded sample_getTime sample_restart sample_stopped)) = t_done sample_restart
   \<and> 1735725620000 \<le> t_enter sample_restart
   \<and> t_enter sample_restart \<le> t_done sample_restart
   \<and> t_enter sample_restart < 1735725620000 + RESUME_COOLDOWN_MS
   \<and> 1735725620000 \<le> t_enter sample_restart_soon
   \<and> t_enter sample_restart_soon \<le> t_done sample_restart_soon
   \<and> t_enter sample_restart_soon < 1735725620000 + RESUME_COOLDOWN_MS
   \<and> timerStarts (calls (runTicks sample_getTime
         [IdleTick (sample_idle 0 sample_stop_ok sample_restart),
          LockPoll (sample_lock False sample_stop_ok sample_restart_soon)] sample_stopped_locked)) = 1
   \<and> timerStarts (calls sample_stopped_locked) = 0"
proof -
  let ?ks = "[IdleTick (sample_idle 0 sample_stop_ok sample_restart),
          LockPoll (sample_lock False sample_stop_ok sample_restart_soon)]"
  have run: "timerStarts (calls (runTicks sample_getTime ?ks sample_stopped_locked)) = 1"
    by (simp add: sample_defs monitor_defs)
  have one: "startTimerCalls (calls (snd (safeRestartTimerIfNeeded sample_getTime sample_restart sample_stopped))) = 1"
    by (simp add: sample_defs monitor_defs)
  have stamp: "lastResumeAt (snd (safeRestartTimerIfNeeded sample_getTime sample_restart sample_stopped)) = t_done sample_restart"
    by (simp add: sample_defs monitor_defs)
  have blocked: "safeRestartTimerIfNeeded sample_getTime sample_restart_soon sample_cooling = (Inr (), sample_cooling)"
    by (simp add: sample_defs monitor_defs)
  show ?thesis
    using cooldown_holds_for_ticks_in_sequence [of sample_restart_soon sample_cooling sample_getTime ?ks 1735725620000]
      cooldown_holds_for_ticks_in_sequence [of sample_restart sample_stopped sample_getTime ?ks 1735725620000]
      cooldown_holds_for_ticks_in_sequence [of sample_restart sample_stopped_locked sample_getTime ?ks 1735725620000]
      run one stamp blocked
    by (simp add: sample_defs RESUME_COOLDOWN_MS_def)
qed

end
